theory Spec2Isabelle
  imports Complex_Main "HOL-Library.Monad_Syntax"
begin

section \<open>JSON values and the Python operations used on them\<close>

text \<open>
  Every source record of \<^verbatim>\<open>scholar.py\<close> is whatever \<^verbatim>\<open>resp.json()\<close> returned: a nested
  value of Python's \<^verbatim>\<open>None\<close>, \<^verbatim>\<open>bool\<close>, \<^verbatim>\<open>int\<close>, \<^verbatim>\<open>float\<close>, \<^verbatim>\<open>str\<close>, \<^verbatim>\<open>list\<close> and \<^verbatim>\<open>dict\<close> with
  string keys. A dict is an association list in insertion order, looked up with
  \<open>map_of\<close>. A float is modelled by the real number it denotes.

  Text is a \<open>string\<close>. The model is exact on ASCII text: whitespace, digits and letter
  case are those of ASCII, and a character above 127 stands for a byte of a UTF-8
  encoding that is neither whitespace, a digit nor cased.

  A Python operation that raises (\<^verbatim>\<open>AttributeError\<close>, \<^verbatim>\<open>TypeError\<close>, \<^verbatim>\<open>KeyError\<close>,
  \<^verbatim>\<open>IndexError\<close>, \<^verbatim>\<open>ValueError\<close>) returns \<open>None\<close>; none of the functions modelled below
  catches an exception, so \<open>None\<close> propagates to the caller as the exception would.
\<close>

datatype json =
    JNull
  | JBool bool
  | JInt int
  | JFloat real
  | JStr string
  | JList "json list"
  | JObj "(string \<times> json) list"

text \<open>Truth value testing: \<^verbatim>\<open>if v:\<close>, \<^verbatim>\<open>v or w\<close>.\<close>

fun truthy :: "json \<Rightarrow> bool" where
  "truthy JNull = False"
| "truthy (JBool b) = b"
| "truthy (JInt i) = (i \<noteq> 0)"
| "truthy (JFloat x) = (x \<noteq> 0)"
| "truthy (JStr s) = (s \<noteq> [])"
| "truthy (JList xs) = (xs \<noteq> [])"
| "truthy (JObj kvs) = (kvs \<noteq> [])"

text \<open>\<^verbatim>\<open>d.get(k, default)\<close>: only a dict has the method.\<close>

fun dict_get :: "json \<Rightarrow> string \<Rightarrow> json \<Rightarrow> json option" where
  "dict_get (JObj kvs) k d = Some (case map_of kvs k of Some v \<Rightarrow> v | None \<Rightarrow> d)"
| "dict_get _ k d = None"

text \<open>\<^verbatim>\<open>v[i]\<close> for a literal index \<open>i \<ge> 0\<close>: a list or a string; a dict has string keys only.\<close>

fun item :: "json \<Rightarrow> nat \<Rightarrow> json option" where
  "item (JList xs) i = (if i < length xs then Some (xs ! i) else None)"
| "item (JStr s) i = (if i < length s then Some (JStr [s ! i]) else None)"
| "item _ i = None"

text \<open>\<^verbatim>\<open>len(v)\<close>.\<close>

fun py_len :: "json \<Rightarrow> nat option" where
  "py_len (JList xs) = Some (length xs)"
| "py_len (JStr s) = Some (length s)"
| "py_len (JObj kvs) = Some (length kvs)"
| "py_len _ = None"

text \<open>\<^verbatim>\<open>for x in v\<close>: a list gives its elements, a dict its keys, a string its characters.\<close>

fun iter :: "json \<Rightarrow> json list option" where
  "iter (JList xs) = Some xs"
| "iter (JObj kvs) = Some (map (\<lambda>kv. JStr (fst kv)) kvs)"
| "iter (JStr s) = Some (map (\<lambda>c. JStr [c]) s)"
| "iter _ = None"

subsection \<open>Strings\<close>

text \<open>Whitespace as \<^verbatim>\<open>str.strip()\<close> and the regular expression class \<^verbatim>\<open>\s\<close> see it.\<close>

definition is_space :: "char \<Rightarrow> bool" where
  "is_space c = (c \<in> set [CHR 0x09, CHR 0x0A, CHR 0x0B, CHR 0x0C, CHR 0x0D,
                            CHR 0x1C, CHR 0x1D, CHR 0x1E, CHR 0x1F, CHR '' ''])"

definition strip :: "string \<Rightarrow> string" where
  "strip s = rev (dropWhile is_space (rev (dropWhile is_space s)))"

definition lower_char :: "char \<Rightarrow> char" where
  "lower_char c =
     (case map_of (zip ''ABCDEFGHIJKLMNOPQRSTUVWXYZ'' ''abcdefghijklmnopqrstuvwxyz'') c of
        Some l \<Rightarrow> l
      | None \<Rightarrow> c)"

definition lower :: "string \<Rightarrow> string" where
  "lower s = map lower_char s"

text \<open>\<^verbatim>\<open>needle in s\<close> for two strings.\<close>

fun is_sub :: "string \<Rightarrow> string \<Rightarrow> bool" where
  "is_sub n [] = (n = [])"
| "is_sub n (c # cs) = (take (length n) (c # cs) = n \<or> is_sub n cs)"

text \<open>\<^verbatim>\<open>s.endswith(suffix)\<close>\<close>

definition endswith :: "string \<Rightarrow> string \<Rightarrow> bool" where
  "endswith s suffix = (length suffix \<le> length s \<and> drop (length s - length suffix) s = suffix)"

text \<open>\<^verbatim>\<open>sep.join(xs)\<close> for a list of strings.\<close>

fun join :: "string \<Rightarrow> string list \<Rightarrow> string" where
  "join sep [] = []"
| "join sep [x] = x"
| "join sep (x # y # ys) = x @ sep @ join sep (y # ys)"

text \<open>The elements of a list as strings; \<^verbatim>\<open>str.join\<close> raises on any other element.\<close>

fun strs :: "json list \<Rightarrow> string list option" where
  "strs [] = Some []"
| "strs (JStr s # vs) = map_option (\<lambda>r. s # r) (strs vs)"
| "strs (_ # vs) = None"

text \<open>\<^verbatim>\<open>d[k]\<close> for a string key: a dict that has the key.\<close>

fun dict_item :: "json \<Rightarrow> string \<Rightarrow> json option" where
  "dict_item (JObj kvs) k = map_of kvs k"
| "dict_item _ k = None"

text \<open>\<^verbatim>\<open>needle in v\<close> for a string needle: a substring, a list element or a dict key.\<close>

fun py_in :: "string \<Rightarrow> json \<Rightarrow> bool option" where
  "py_in n (JStr s) = Some (is_sub n s)"
| "py_in n (JList xs) = Some (JStr n \<in> set xs)"
| "py_in n (JObj kvs) = Some (n \<in> fst ` set kvs)"
| "py_in n _ = None"

text \<open>The number a JSON value is in arithmetic and comparisons (\<^verbatim>\<open>bool\<close> is an \<^verbatim>\<open>int\<close>).\<close>

fun num :: "json \<Rightarrow> real option" where
  "num (JInt i) = Some (real_of_int i)"
| "num (JFloat x) = Some x"
| "num (JBool b) = Some (if b then 1 else 0)"
| "num _ = None"

subsection \<open>Formatting\<close>

definition digit_char :: "nat \<Rightarrow> char" where
  "digit_char n = ''0123456789'' ! n"

fun str_nat :: "nat \<Rightarrow> string" where
  "str_nat n = (if n < 10 then [digit_char n] else str_nat (n div 10) @ [digit_char (n mod 10)])"

declare str_nat.simps [simp del]

definition str_int :: "int \<Rightarrow> string" where
  "str_int i = (if i < 0 then CHR ''-'' # str_nat (nat (- i)) else str_nat (nat i))"

text \<open>
  What the interpreter and the clock supply: the text of a float, list or dict under
  \<^verbatim>\<open>str()\<close>, of a float under the format spec \<^verbatim>\<open>,\<close> and of a number under \<^verbatim>\<open>.0%\<close>, the
  order in which \<^verbatim>\<open>list(set(xs))\<close> lists the members of the set built from \<open>xs\<close>, and
  today's date as \<^verbatim>\<open>datetime.now().strftime('%Y-%m-%d')\<close> prints it.
\<close>

record builtins =
  repr_of :: "json \<Rightarrow> string"
  comma_float :: "real \<Rightarrow> string"
  percent0 :: "real \<Rightarrow> string"
  set_order :: "string list \<Rightarrow> string list"
  today :: string

text \<open>\<^verbatim>\<open>str(v)\<close>, which is also \<^verbatim>\<open>f"{v}"\<close>.\<close>

fun py_str :: "builtins \<Rightarrow> json \<Rightarrow> string" where
  "py_str E (JStr s) = s"
| "py_str E (JInt i) = str_int i"
| "py_str E (JBool b) = (if b then ''True'' else ''False'')"
| "py_str E JNull = ''None''"
| "py_str E v = repr_of E v"

text \<open>\<^verbatim>\<open>f"{v:02d}"\<close>: an int (or bool), zero-padded to width two; any other type raises.\<close>

definition pad2 :: "int \<Rightarrow> string" where
  "pad2 i = (if 0 \<le> i \<and> i < 10 then CHR ''0'' # str_int i else str_int i)"

fun fmt_02d :: "json \<Rightarrow> string option" where
  "fmt_02d (JInt i) = Some (pad2 i)"
| "fmt_02d (JBool b) = Some (pad2 (if b then 1 else 0))"
| "fmt_02d _ = None"

section \<open>Field reconciliation\<close>

subsection \<open>Publication date (\<^verbatim>\<open>_extract_date\<close>)\<close>

definition date_keys :: "string list" where
  "date_keys = [''published-print'', ''published-online'', ''issued'', ''created'']"

text \<open>\<^verbatim>\<open>cr.get(key, {}).get("date-parts", [[]])\<close>\<close>

definition date_parts :: "json \<Rightarrow> string \<Rightarrow> json option" where
  "date_parts cr key = do {
     ent \<leftarrow> dict_get cr key (JObj []);
     dict_get ent ''date-parts'' (JList [JList []])
   }"

text \<open>\<^verbatim>\<open>dp and dp[0]\<close>, as the condition of an \<^verbatim>\<open>if\<close>.\<close>

definition has_first :: "json \<Rightarrow> bool option" where
  "has_first dp = (if truthy dp then map_option truthy (item dp 0) else Some False)"

text \<open>
  The loop over the four CrossRef keys. \<open>Some (Some d)\<close>: the loop returned \<open>d\<close>;
  \<open>Some None\<close>: it ran to its end; \<open>None\<close>: it raised.
\<close>

fun cr_date :: "builtins \<Rightarrow> json \<Rightarrow> string list \<Rightarrow> json option option" where
  "cr_date E cr [] = Some None"
| "cr_date E cr (key # keys) = do {
     dp \<leftarrow> date_parts cr key;
     go \<leftarrow> has_first dp;
     if go then do {
       parts \<leftarrow> item dp 0;
       n \<leftarrow> py_len parts;
       if n \<ge> 3 then do {
         y \<leftarrow> item parts 0;
         m \<leftarrow> item parts 1;
         d \<leftarrow> item parts 2;
         mm \<leftarrow> fmt_02d m;
         dd \<leftarrow> fmt_02d d;
         Some (Some (JStr (py_str E y @ ''-'' @ mm @ ''-'' @ dd)))
       } else if n \<ge> 1 then do {
         y \<leftarrow> item parts 0;
         Some (Some (JStr (py_str E y)))
       } else cr_date E cr keys
     } else cr_date E cr keys
   }"

definition extract_date :: "builtins \<Rightarrow> json \<Rightarrow> json \<Rightarrow> json \<Rightarrow> json \<Rightarrow> json option" where
  "extract_date E cr ss oa epmc = do {
     r \<leftarrow> cr_date E cr date_keys;
     case r of
       Some d \<Rightarrow> Some d
     | None \<Rightarrow> do {
         pd \<leftarrow> dict_get ss ''publicationDate'' JNull;
         if truthy pd then Some pd
         else do {
           yr \<leftarrow> dict_get oa ''publication_year'' JNull;
           if truthy yr then Some (JStr (py_str E yr))
           else dict_get epmc ''pubYear'' JNull
         }
       }
   }"

subsection \<open>Authors (\<^verbatim>\<open>_extract_authors\<close>)\<close>

text \<open>\<^verbatim>\<open>f"{given} {family}".strip()\<close> for one CrossRef author entry.\<close>

definition cr_name :: "builtins \<Rightarrow> json \<Rightarrow> string option" where
  "cr_name E a = do {
     given \<leftarrow> dict_get a ''given'' (JStr []);
     family \<leftarrow> dict_get a ''family'' (JStr []);
     Some (strip (py_str E given @ '' '' @ py_str E family))
   }"

fun cr_names :: "builtins \<Rightarrow> json list \<Rightarrow> string list option" where
  "cr_names E [] = Some []"
| "cr_names E (a # as) = do {
     name \<leftarrow> cr_name E a;
     rest \<leftarrow> cr_names E as;
     Some (if name \<noteq> [] then name # rest else rest)
   }"

text \<open>\<^verbatim>\<open>a.get("author", {}).get("display_name", d)\<close>\<close>

definition oa_display :: "json \<Rightarrow> json \<Rightarrow> json option" where
  "oa_display a d = do {
     au \<leftarrow> dict_get a ''author'' (JObj []);
     dict_get au ''display_name'' d
   }"

fun oa_names :: "json list \<Rightarrow> json list option" where
  "oa_names [] = Some []"
| "oa_names (a # as) = do {
     c \<leftarrow> oa_display a JNull;
     x \<leftarrow> (if truthy c then map_option (\<lambda>v. [v]) (oa_display a (JStr [])) else Some []);
     rest \<leftarrow> oa_names as;
     Some (x @ rest)
   }"

fun ss_names :: "json list \<Rightarrow> json list option" where
  "ss_names [] = Some []"
| "ss_names (a # as) = do {
     c \<leftarrow> dict_get a ''name'' JNull;
     x \<leftarrow> (if truthy c then map_option (\<lambda>v. [v]) (dict_get a ''name'' (JStr [])) else Some []);
     rest \<leftarrow> ss_names as;
     Some (x @ rest)
   }"

definition extract_authors :: "builtins \<Rightarrow> json \<Rightarrow> json \<Rightarrow> json \<Rightarrow> json \<Rightarrow> json list option" where
  "extract_authors E cr oa ss epmc = do {
     authors \<leftarrow> dict_get cr ''author'' (JList []);
     names \<leftarrow> (if truthy authors then do { as \<leftarrow> iter authors; cr_names E as } else Some []);
     if truthy authors \<and> names \<noteq> [] then Some (map JStr names)
     else do {
       authorships \<leftarrow> dict_get oa ''authorships'' (JList []);
       if truthy authorships then do { as \<leftarrow> iter authorships; oa_names as }
       else do {
         ss_authors \<leftarrow> dict_get ss ''authors'' (JList []);
         if truthy ss_authors then do { as \<leftarrow> iter ss_authors; ss_names as }
         else do {
           author_str \<leftarrow> dict_get epmc ''authorString'' (JStr []);
           Some (if truthy author_str then [author_str] else [])
         }
       }
     }
   }"

subsection \<open>Open-access links (\<^verbatim>\<open>_extract_oa_links\<close>)\<close>

text \<open>\<^verbatim>\<open>isinstance(v, dict)\<close>\<close>

fun is_dict :: "json \<Rightarrow> bool" where
  "is_dict (JObj kvs) = True"
| "is_dict _ = False"

text \<open>The loop over Europe PMC's full-text URLs, left at the first PDF.\<close>

fun epmc_pdf :: "json list \<Rightarrow> (string \<times> json) list option" where
  "epmc_pdf [] = Some []"
| "epmc_pdf (u # us) = do {
     style \<leftarrow> dict_get u ''documentStyle'' JNull;
     if style = JStr ''pdf'' then do {
       url \<leftarrow> dict_item u ''url'';
       Some [(''Europe PMC PDF'', url)]
     } else epmc_pdf us
   }"

text \<open>
  One step of the loop over CrossRef's licenses: \<^verbatim>\<open>url = lic.get("URL", "")\<close> and the test
  \<^verbatim>\<open>"creativecommons.org" in url\<close>.
\<close>

definition license_cc :: "json \<Rightarrow> (json \<times> bool) option" where
  "license_cc lic = do {
     url \<leftarrow> dict_get lic ''URL'' (JStr []);
     cc \<leftarrow> py_in ''creativecommons.org'' url;
     Some (url, cc)
   }"

text \<open>The loop, left at the first Creative Commons URL.\<close>

fun cc_license :: "json list \<Rightarrow> (string \<times> json) list option" where
  "cc_license [] = Some []"
| "cc_license (lic # lics) = do {
     (url, cc) \<leftarrow> license_cc lic;
     if cc then Some [(''License'', url)] else cc_license lics
   }"

text \<open>\<^verbatim>\<open>cr.get("license", [])\<close>, as the loop runs over it.\<close>

definition licenses_of :: "json \<Rightarrow> json list option" where
  "licenses_of cr = do {
     licenses \<leftarrow> dict_get cr ''license'' (JList []);
     iter licenses
   }"

text \<open>The five steps of \<^verbatim>\<open>_extract_oa_links\<close>, each with what it appends to \<^verbatim>\<open>links\<close>.\<close>

definition pmc_link :: "builtins \<Rightarrow> json \<Rightarrow> (string \<times> json) list option" where
  "pmc_link E report = do {
     pmc \<leftarrow> dict_get report ''pmc_id'' JNull;
     Some (if truthy pmc
           then [(''PubMed Central'',
                  JStr (''https://www.ncbi.nlm.nih.gov/pmc/articles/PMC'' @ py_str E pmc @ ''/''))]
           else [])
   }"

definition ss_link :: "json \<Rightarrow> (string \<times> json) list option" where
  "ss_link ss = do {
     ss_pdf \<leftarrow> dict_get ss ''openAccessPdf'' (JObj []);
     if is_dict ss_pdf then do {
       url \<leftarrow> dict_get ss_pdf ''url'' JNull;
       Some (if truthy url then [(''Semantic Scholar PDF'', url)] else [])
     } else Some []
   }"

definition oa_link :: "builtins \<Rightarrow> json \<Rightarrow> (string \<times> json) list option" where
  "oa_link E oa = do {
     oa_access \<leftarrow> dict_get oa ''open_access'' (JObj []);
     if is_dict oa_access then do {
       url \<leftarrow> dict_get oa_access ''oa_url'' JNull;
       status \<leftarrow> dict_get oa_access ''oa_status'' (JStr ''open'');
       Some (if truthy url then [(''OpenAlex ('' @ py_str E status @ '')'', url)] else [])
     } else Some []
   }"

text \<open>\<^verbatim>\<open>epmc.get("fullTextUrlList", {}).get("fullTextUrl", [])\<close>, as the loop runs over it.\<close>

definition epmc_urls_of :: "json \<Rightarrow> json list option" where
  "epmc_urls_of epmc = do {
     lst \<leftarrow> dict_get epmc ''fullTextUrlList'' (JObj []);
     epmc_urls \<leftarrow> dict_get lst ''fullTextUrl'' (JList []);
     iter epmc_urls
   }"

definition epmc_link :: "json \<Rightarrow> (string \<times> json) list option" where
  "epmc_link epmc = do {
     flag \<leftarrow> dict_get epmc ''isOpenAccess'' JNull;
     if flag = JStr ''Y'' then do {
       us \<leftarrow> epmc_urls_of epmc;
       epmc_pdf us
     } else Some []
   }"

definition cr_link :: "json \<Rightarrow> (string \<times> json) list option" where
  "cr_link cr = do {
     lics \<leftarrow> licenses_of cr;
     cc_license lics
   }"

definition extract_oa_links ::
  "builtins \<Rightarrow> json \<Rightarrow> json \<Rightarrow> json \<Rightarrow> json \<Rightarrow> json \<Rightarrow> (string \<times> json) list option" where
  "extract_oa_links E cr oa ss epmc report = do {
     l1 \<leftarrow> pmc_link E report;
     l2 \<leftarrow> ss_link ss;
     l3 \<leftarrow> oa_link E oa;
     l4 \<leftarrow> epmc_link epmc;
     l5 \<leftarrow> cr_link cr;
     Some (l1 @ l2 @ l3 @ l4 @ l5)
   }"

text \<open>
  Two names for the statements about the loops that stop at their first hit. The list
  \<open>l\<close> is what the loop over \<open>us\<close> appends: the link of the first element whose
  \<^verbatim>\<open>documentStyle\<close> is "pdf", every element before it having been read and found of another
  style, or nothing when no element is a PDF; and likewise the link of the first
  license whose URL contains "creativecommons.org".
\<close>

abbreviation first_pdf :: "json list \<Rightarrow> (string \<times> json) list \<Rightarrow> bool" where
  "first_pdf us l \<equiv>
     (\<exists>pre u suf url. us = pre @ u # suf
        \<and> (\<forall>p\<in>set pre. \<exists>st. dict_get p ''documentStyle'' JNull = Some st \<and> st \<noteq> JStr ''pdf'')
        \<and> dict_get u ''documentStyle'' JNull = Some (JStr ''pdf'')
        \<and> dict_item u ''url'' = Some url \<and> l = [(''Europe PMC PDF'', url)])
     \<or> ((\<forall>p\<in>set us. \<exists>st. dict_get p ''documentStyle'' JNull = Some st \<and> st \<noteq> JStr ''pdf'')
        \<and> l = [])"

abbreviation first_cc :: "json list \<Rightarrow> (string \<times> json) list \<Rightarrow> bool" where
  "first_cc lics l \<equiv>
     (\<exists>pre lic suf u. lics = pre @ lic # suf
        \<and> (\<forall>p\<in>set pre. \<exists>v. license_cc p = Some (v, False))
        \<and> license_cc lic = Some (u, True) \<and> l = [(''License'', u)])
     \<or> ((\<forall>p\<in>set lics. \<exists>v. license_cc p = Some (v, False)) \<and> l = [])"

subsection \<open>Editorial notices (\<^verbatim>\<open>_extract_notices\<close>)\<close>

text \<open>
  The elements the loop \<^verbatim>\<open>for update in a + b\<close> runs over: two lists are concatenated,
  and so are two strings; any other pair raises, at the sum or at the iteration.
\<close>

fun sum_iter :: "json \<Rightarrow> json \<Rightarrow> json list option" where
  "sum_iter (JList xs) (JList ys) = Some (xs @ ys)"
| "sum_iter (JStr s) (JStr t) = iter (JStr (s @ t))"
| "sum_iter _ _ = None"

text \<open>\<^verbatim>\<open>update.get("label", "").lower()\<close>: only a string has the method.\<close>

definition update_label :: "json \<Rightarrow> string option" where
  "update_label update = do {
     l \<leftarrow> dict_get update ''label'' (JStr []);
     case l of JStr s \<Rightarrow> Some (lower s) | _ \<Rightarrow> None
   }"

text \<open>What one update appends to the notices.\<close>

definition label_notice :: "string \<Rightarrow> string list" where
  "label_notice label =
     (if is_sub ''retract'' label then [''RETRACTED'']
      else if is_sub ''correction'' label \<or> is_sub ''erratum'' label then [''Has correction/erratum'']
      else if is_sub ''concern'' label then [''Expression of concern'']
      else [])"

fun update_notices :: "json list \<Rightarrow> string list option" where
  "update_notices [] = Some []"
| "update_notices (update # updates) = do {
     label \<leftarrow> update_label update;
     rest \<leftarrow> update_notices updates;
     Some (label_notice label @ rest)
   }"

text \<open>\<^verbatim>\<open>cr.get("update-to", []) + cr.get("updated-by", [])\<close>, as the loop runs over it.\<close>

definition updates_of :: "json \<Rightarrow> json list option" where
  "updates_of cr = do {
     update_to \<leftarrow> dict_get cr ''update-to'' (JList []);
     updated_by \<leftarrow> dict_get cr ''updated-by'' (JList []);
     sum_iter update_to updated_by
   }"

definition extract_notices :: "builtins \<Rightarrow> json \<Rightarrow> string list option" where
  "extract_notices E cr = do {
     relation \<leftarrow> dict_get cr ''relation'' (JObj []);
     retracted \<leftarrow> dict_get relation ''is-retracted-by'' JNull;
     concern \<leftarrow> dict_get relation ''has-expression-of-concern'' JNull;
     updates \<leftarrow> updates_of cr;
     ns \<leftarrow> update_notices updates;
     Some (set_order E ((if truthy retracted then [''RETRACTED''] else [])
                        @ (if truthy concern then [''Expression of concern''] else [])
                        @ ns))
   }"

section \<open>The report and its rendering (\<^verbatim>\<open>to_markdown\<close>)\<close>

text \<open>
  The aggregate report is the dict \<^verbatim>\<open>aggregate_paper_data\<close> builds: \<^verbatim>\<open>doi\<close>, \<^verbatim>\<open>sources\<close> (a dict
  from source name to source record, holding the sources that returned data), and,
  when found, \<^verbatim>\<open>pmid\<close>, \<^verbatim>\<open>pmc_id\<close>, \<^verbatim>\<open>hypothesis_annotations\<close> and \<^verbatim>\<open>recommendations\<close>.
\<close>

text \<open>\<^verbatim>\<open>report["sources"].get(name, d)\<close>\<close>

definition source :: "json \<Rightarrow> string \<Rightarrow> json \<Rightarrow> json option" where
  "source report name d = do {
     srcs \<leftarrow> dict_item report ''sources'';
     dict_get srcs name d
   }"

section \<open>Identifier extraction (\<^verbatim>\<open>extract_doi\<close>)\<close>

text \<open>
  \<^verbatim>\<open>DOI_REGEX\<close> is \<^verbatim>\<open>(10\.\d{4,9}/[^\s"'<>\]\)}{,]+)\<close>, searched with \<^verbatim>\<open>re.search\<close>: the
  leftmost position at which the pattern matches, and there the match the backtracking
  matcher finds first (greedy quantifiers, longest count tried first).
\<close>

definition is_digit :: "char \<Rightarrow> bool" where
  "is_digit c = (c \<in> set ''0123456789'')"

text \<open>The class \<^verbatim>\<open>[^\s"'<>\]\)}{,]\<close>.\<close>

definition doi_char :: "char \<Rightarrow> bool" where
  "doi_char c = (\<not> is_space c \<and>
     c \<notin> set [CHR 0x22, CHR 0x27, CHR ''<'', CHR ''>'', CHR '']'', CHR '')'', CHR ''}'', CHR ''{'',
                CHR '',''])"

text \<open>
  The rest of the pattern after \<^verbatim>\<open>10\.\<close>, with \<^verbatim>\<open>\d{4,9}\<close> taking exactly \<open>n\<close> digits: the
  slash, and the longest non-empty run of the class.
\<close>

definition doi_try :: "string \<Rightarrow> nat \<Rightarrow> string option" where
  "doi_try r n =
     (let ds = take n r in
      if length ds = n \<and> list_all is_digit ds then
        (case drop n r of
           [] \<Rightarrow> None
         | c # cs \<Rightarrow>
             if c = CHR ''/'' \<and> takeWhile doi_char cs \<noteq> []
             then Some (''10.'' @ ds @ ''/'' @ takeWhile doi_char cs)
             else None)
      else None)"

fun first_some :: "('a \<Rightarrow> 'b option) \<Rightarrow> 'a list \<Rightarrow> 'b option" where
  "first_some f [] = None"
| "first_some f (x # xs) = (case f x of Some y \<Rightarrow> Some y | None \<Rightarrow> first_some f xs)"

text \<open>The pattern anchored at the start of \<open>s\<close>; the digit counts are tried from 9 down to 4.\<close>

definition doi_match :: "string \<Rightarrow> string option" where
  "doi_match s =
     (if take 3 s = ''10.'' then first_some (doi_try (drop 3 s)) [9, 8, 7, 6, 5, 4] else None)"

fun doi_search :: "string \<Rightarrow> string option" where
  "doi_search [] = None"
| "doi_search (c # cs) =
     (case doi_match (c # cs) of Some m \<Rightarrow> Some m | None \<Rightarrow> doi_search cs)"

text \<open>\<^verbatim>\<open>s.rstrip(chars)\<close>\<close>

definition rstrip :: "string \<Rightarrow> string \<Rightarrow> string" where
  "rstrip chars s = rev (dropWhile (\<lambda>c. c \<in> set chars) (rev s))"

definition extensions :: "string list" where
  "extensions = [''.pdf'', ''.html'', ''.full'', ''.xml'']"

text \<open>One pass of the loop body: \<^verbatim>\<open>if doi.lower().endswith(ext): doi = doi[: -len(ext)]\<close>.\<close>

definition strip_ext :: "string \<Rightarrow> string \<Rightarrow> string" where
  "strip_ext doi ext =
     (if endswith (lower doi) ext then take (length doi - length ext) doi else doi)"

definition extract_doi :: "string \<Rightarrow> string option" where
  "extract_doi text =
     (case doi_search text of
        Some m \<Rightarrow> Some (foldl strip_ext (rstrip ''.,;:'' m) extensions)
      | None \<Rightarrow> None)"

section \<open>Request governor\<close>

text \<open>
  What the governor does besides returning: it prints, sleeps and sends requests. The
  effects are recorded in order. A printed message is recorded by the number it
  reports, a sleep by its duration in seconds, \<^verbatim>\<open>time.sleep(random.uniform(a, b))\<close> by its
  bounds, and a request by the index of the attempt that sends it. Times are seconds as
  real numbers (the source computes them in floating point).
\<close>

datatype event =
    Print_wait real
  | Print_quota real
  | Sleep real
  | Sleep_uniform real real
  | Request nat

subsection \<open>The rate-limit gate (\<^verbatim>\<open>check_rate_limit\<close>)\<close>

definition MIN_INTERVAL_SECONDS :: real where
  "MIN_INTERVAL_SECONDS = 5"

definition MAX_REQUESTS_PER_HOUR :: nat where
  "MAX_REQUESTS_PER_HOUR = 10"

definition window :: real where
  "window = 3600"

text \<open>
  The ledger file: absent, unreadable (reading or JSON decoding raises, which the gate
  catches), or holding a JSON value.
\<close>

datatype ledger_file = Absent | Unreadable | Contents json

fun nums :: "json list \<Rightarrow> real list option" where
  "nums [] = Some []"
| "nums (v # vs) = do { x \<leftarrow> num v; xs \<leftarrow> nums vs; Some (x # xs) }"

text \<open>
  The timestamps the comprehension \<^verbatim>\<open>[ts for ts in timestamps if now - ts < window]\<close>
  iterates over: \<^verbatim>\<open>now - ts\<close> raises on anything but a number.
\<close>

definition load_ledger :: "ledger_file \<Rightarrow> real list option" where
  "load_ledger f =
     (case f of
        Absent \<Rightarrow> Some []
      | Unreadable \<Rightarrow> Some []
      | Contents v \<Rightarrow> do { xs \<leftarrow> iter v; nums xs })"

text \<open>How an invocation leaves the gate.\<close>

datatype outcome = Proceeds | Exits nat | Raises

definition check_rate_limit :: "real \<Rightarrow> ledger_file \<Rightarrow> event list \<times> outcome" where
  "check_rate_limit now f =
     (case load_ledger f of
        None \<Rightarrow> ([], Raises)
      | Some loaded \<Rightarrow>
          let timestamps = filter (\<lambda>ts. now - ts < window) loaded;
              elapsed = now - Max (set timestamps);
              wait = MIN_INTERVAL_SECONDS - elapsed;
              waited = (if timestamps \<noteq> [] \<and> elapsed < MIN_INTERVAL_SECONDS
                        then [Print_wait wait, Sleep wait] else []);
              retry_after = window - (now - Min (set timestamps))
          in if length timestamps \<ge> MAX_REQUESTS_PER_HOUR
             then (waited @ [Print_quota retry_after], Exits 1)
             else (waited, Proceeds))"

subsection \<open>The transport wrapper (\<^verbatim>\<open>_get\<close>, \<^verbatim>\<open>_post\<close>)\<close>

text \<open>
  What the network answers to one attempt: a response with its status code and its
  body as \<^verbatim>\<open>resp.json()\<close> parses it (\<open>None\<close> when parsing raises); an exception of the
  \<^verbatim>\<open>Exception\<close> hierarchy raised by \<^verbatim>\<open>requests.get\<close> or \<^verbatim>\<open>requests.post\<close> itself (a connection
  error, a timeout); or an exception outside that hierarchy raised during the call
  (\<^verbatim>\<open>KeyboardInterrupt\<close>, \<^verbatim>\<open>SystemExit\<close>).
\<close>

datatype reply = Response nat "json option" | Transport_error | Interrupt

text \<open>\<^verbatim>\<open>resp.ok\<close> of the requests library: the status is not a 4xx or 5xx error.\<close>

definition resp_ok :: "nat \<Rightarrow> bool" where
  "resp_ok status = (\<not> (400 \<le> status \<and> status < 600))"

text \<open>
  The body of the \<^verbatim>\<open>try\<close> block for one attempt, up to the sleep of the 429 branch: it
  returns a value, goes on to the next attempt, raises an exception that
  \<^verbatim>\<open>except Exception\<close> catches, or raises one that it does not catch.
\<close>

datatype step = Return json | Continue | Caught | Uncaught

definition try_body :: "reply \<Rightarrow> nat \<Rightarrow> nat \<Rightarrow> step" where
  "try_body r attempt retries =
     (case r of
        Transport_error \<Rightarrow> Caught
      | Interrupt \<Rightarrow> Uncaught
      | Response status body \<Rightarrow>
          if resp_ok status then (case body of Some v \<Rightarrow> Return v | None \<Rightarrow> Caught)
          else if status = 429 \<and> attempt < retries then Continue
          else Return JNull)"

text \<open>How a call of the wrapper ends: it returns a value (\<open>JNull\<close> is Python's \<^verbatim>\<open>None\<close>, the
  no-data value) or an exception leaves it.\<close>

datatype returned = Returns json | Raised

text \<open>
  The loop \<^verbatim>\<open>for attempt in range(retries + 1)\<close> over the attempts still to make, and the
  \<^verbatim>\<open>return None\<close> after it. \<open>net attempt\<close> is the network's answer to that attempt.
\<close>

fun attempts :: "(nat \<Rightarrow> reply) \<Rightarrow> nat \<Rightarrow> nat list \<Rightarrow> event list \<times> returned" where
  "attempts net retries [] = ([], Returns JNull)"
| "attempts net retries (attempt # rest) =
     (case try_body (net attempt) attempt retries of
        Return v \<Rightarrow> ([Request attempt], Returns v)
      | Continue \<Rightarrow>
          (let (es, r) = attempts net retries rest
           in (Request attempt # Sleep_uniform 3 8 # es, r))
      | Caught \<Rightarrow>
          (let (es, r) = attempts net retries rest
           in (Request attempt # (if attempt < retries then [Sleep 2] else []) @ es, r))
      | Uncaught \<Rightarrow> ([Request attempt], Raised))"

definition get :: "(nat \<Rightarrow> reply) \<Rightarrow> nat \<Rightarrow> event list \<times> returned" where
  "get net retries = attempts net retries [0..<retries + 1]"

definition post :: "(nat \<Rightarrow> reply) \<Rightarrow> nat \<Rightarrow> event list \<times> returned" where
  "post net retries = attempts net retries [0..<retries + 1]"

text \<open>
  Two names for the statements about the loop. An answer is retried when the loop goes
  on after it while an attempt is left: an exception that is caught (from the
  transport, or from parsing the body of an ok response) or a 429. The pause is the
  sleep that precedes the next attempt.
\<close>

abbreviation retried :: "reply \<Rightarrow> bool" where
  "retried r \<equiv> r = Transport_error \<or> (\<exists>s. resp_ok s \<and> r = Response s None)
     \<or> (\<exists>b. r = Response 429 b)"

abbreviation pause :: "reply \<Rightarrow> event" where
  "pause r \<equiv> (case r of Response s b \<Rightarrow> if resp_ok s then Sleep 2 else Sleep_uniform 3 8
              | _ \<Rightarrow> Sleep 2)"

subsection \<open>More formatting\<close>

text \<open>\<^verbatim>\<open>f"{v:,}"\<close>: an int (or bool) with its digits grouped in threes, a float as the
  interpreter prints it; any other type raises.\<close>

definition pad3 :: "nat \<Rightarrow> string" where
  "pad3 n = replicate (3 - length (str_nat n)) (CHR ''0'') @ str_nat n"

fun comma_nat :: "nat \<Rightarrow> string" where
  "comma_nat n =
     (if n < 1000 then str_nat n else comma_nat (n div 1000) @ '','' @ pad3 (n mod 1000))"

declare comma_nat.simps [simp del]

definition comma_int :: "int \<Rightarrow> string" where
  "comma_int i = (if i < 0 then CHR ''-'' # comma_nat (nat (- i)) else comma_nat (nat i))"

fun fmt_comma :: "builtins \<Rightarrow> json \<Rightarrow> string option" where
  "fmt_comma E (JInt i) = Some (comma_int i)"
| "fmt_comma E (JBool b) = Some (comma_int (if b then 1 else 0))"
| "fmt_comma E (JFloat x) = Some (comma_float E x)"
| "fmt_comma E _ = None"

text \<open>\<^verbatim>\<open>f"{v:.0%}"\<close>: a number; any other type raises.\<close>

definition fmt_percent :: "builtins \<Rightarrow> json \<Rightarrow> string option" where
  "fmt_percent E v = map_option (percent0 E) (num v)"

text \<open>\<^verbatim>\<open>v > c\<close> for a numeric constant \<open>c\<close>: only a number compares with a number.\<close>

definition py_gt :: "json \<Rightarrow> real \<Rightarrow> bool option" where
  "py_gt v c = map_option (\<lambda>x. x > c) (num v)"

text \<open>\<^verbatim>\<open>'s' if v != 1 else ''\<close>\<close>

definition plural :: "json \<Rightarrow> string" where
  "plural v = (if num v \<noteq> Some 1 then ''s'' else '''')"

text \<open>\<^verbatim>\<open>int(x)\<close> for a number: truncation towards zero.\<close>

definition py_int :: "real \<Rightarrow> int" where
  "py_int x = (if x \<ge> 0 then \<lfloor>x\<rfloor> else \<lceil>x\<rceil>)"

text \<open>The em dash of the source's string literals, as its UTF-8 bytes.\<close>

definition em_dash :: string where
  "em_dash = [CHR 0xE2, CHR 0x80, CHR 0x94]"

text \<open>\<^verbatim>\<open>re.sub(r"<[^>]+>", "", s)\<close>: each tag, from a \<^verbatim>\<open><\<close> over at least one character other
  than \<^verbatim>\<open>>\<close> to the next \<^verbatim>\<open>>\<close>, is removed, leftmost first.\<close>

function strip_tags :: "string \<Rightarrow> string" where
  "strip_tags [] = []"
| "strip_tags (c # cs) =
     (let inner = takeWhile (\<lambda>x. x \<noteq> CHR ''>'') cs;
          rest = dropWhile (\<lambda>x. x \<noteq> CHR ''>'') cs
      in if c = CHR ''<'' \<and> inner \<noteq> [] \<and> rest \<noteq> [] then strip_tags (tl rest)
         else c # strip_tags cs)"
  by pat_completeness auto
termination
proof (relation "measure length")
  show "wf (measure length)" by simp
next
  fix c :: char and cs inner rest :: string
  assume r: "rest = dropWhile (\<lambda>x. x \<noteq> CHR ''>'') cs"
  have "length (dropWhile (\<lambda>x. x \<noteq> CHR ''>'') cs) \<le> length cs"
    by (rule length_dropWhile_le)
  with r have "length (tl rest) \<le> length cs" by simp
  then show "(tl rest, c # cs) \<in> measure length" by simp
next
  fix c :: char and cs :: string
  show "(cs, c # cs) \<in> measure length" by simp
qed

text \<open>\<^verbatim>\<open>re.sub(r"\s+", " ", s)\<close>: each run of whitespace becomes one space.\<close>

function collapse_ws :: "string \<Rightarrow> string" where
  "collapse_ws [] = []"
| "collapse_ws (c # cs) =
     (if is_space c then CHR '' '' # collapse_ws (dropWhile is_space cs)
      else c # collapse_ws cs)"
  by pat_completeness auto
termination
proof (relation "measure length")
  show "wf (measure length)" by simp
next
  fix c :: char and cs :: string
  have "length (dropWhile is_space cs) \<le> length cs" by (rule length_dropWhile_le)
  then show "(dropWhile is_space cs, c # cs) \<in> measure length" by simp
next
  fix c :: char and cs :: string
  show "(cs, c # cs) \<in> measure length" by simp
qed

subsection \<open>Journal (\<^verbatim>\<open>_extract_journal\<close>)\<close>

definition extract_journal :: "builtins \<Rightarrow> json \<Rightarrow> json \<Rightarrow> json \<Rightarrow> json option" where
  "extract_journal E cr ss epmc = do {
     ct \<leftarrow> dict_get cr ''container-title'' (JList []);
     if truthy ct then do {
       journal \<leftarrow> (case ct of JList xs \<Rightarrow> item ct 0 | _ \<Rightarrow> Some ct);
       vol \<leftarrow> dict_get cr ''volume'' (JStr []);
       issue \<leftarrow> dict_get cr ''issue'' (JStr []);
       page \<leftarrow> dict_get cr ''page'' (JStr []);
       parts \<leftarrow> strs ([journal]
                 @ (if truthy vol then [JStr (''vol. '' @ py_str E vol)] else [])
                 @ (if truthy issue then [JStr (''no. '' @ py_str E issue)] else [])
                 @ (if truthy page then [JStr (''pp. '' @ py_str E page)] else []));
       Some (JStr (join '', '' parts))
     } else do {
       ss_journal \<leftarrow> dict_get ss ''journal'' (JObj []);
       name \<leftarrow> (if is_dict ss_journal then dict_get ss_journal ''name'' JNull else Some JNull);
       if truthy name then Some name else dict_get epmc ''journalTitle'' JNull
     }
   }"

subsection \<open>The sections of the document\<close>

text \<open>
  Lines 478 to 481: CrossRef's title, a list whose first element counts, and the
  chain \<^verbatim>\<open>title or ss.get("title") or oa.get("title") or epmc.get("title") or doi\<close>.
\<close>

definition cr_title :: "json \<Rightarrow> json option" where
  "cr_title cr = do {
     t \<leftarrow> dict_get cr ''title'' (JList [JNull]);
     let title = (if truthy t then t else JList [JNull]);
     case title of JList xs \<Rightarrow> (if xs \<noteq> [] then item title 0 else Some JNull) | _ \<Rightarrow> Some title
   }"

definition md_title :: "json \<Rightarrow> json \<Rightarrow> json \<Rightarrow> json \<Rightarrow> json \<Rightarrow> json option" where
  "md_title cr ss oa epmc doi = do {
     title \<leftarrow> cr_title cr;
     if truthy title then Some title
     else do {
       s \<leftarrow> dict_get ss ''title'' JNull;
       if truthy s then Some s
       else do {
         a \<leftarrow> dict_get oa ''title'' JNull;
         if truthy a then Some a
         else do {
           e \<leftarrow> dict_get epmc ''title'' JNull;
           Some (if truthy e then e else doi)
         }
       }
     }
   }"

definition md_authors :: "builtins \<Rightarrow> json \<Rightarrow> json \<Rightarrow> json \<Rightarrow> json \<Rightarrow> string list option" where
  "md_authors E cr oa ss epmc = do {
     authors \<leftarrow> extract_authors E cr oa ss epmc;
     if authors \<noteq> [] then do {
       names \<leftarrow> strs (take 10 authors);
       Some [''**Authors:** '' @ join '', '' names
             @ (if length authors > 10 then '' *et al.*'' else [])]
     } else Some []
   }"

definition md_journal :: "builtins \<Rightarrow> json \<Rightarrow> json \<Rightarrow> json \<Rightarrow> string list option" where
  "md_journal E cr ss epmc = do {
     journal \<leftarrow> extract_journal E cr ss epmc;
     Some (if truthy journal then [''**Journal:** '' @ py_str E journal] else [])
   }"

definition md_date :: "builtins \<Rightarrow> json \<Rightarrow> json \<Rightarrow> json \<Rightarrow> json \<Rightarrow> string list option" where
  "md_date E cr ss oa epmc = do {
     date \<leftarrow> extract_date E cr ss oa epmc;
     Some (if truthy date then [''**Published:** '' @ py_str E date] else [])
   }"

definition md_type :: "builtins \<Rightarrow> json \<Rightarrow> json \<Rightarrow> string list option" where
  "md_type E cr ss = do {
     t \<leftarrow> dict_get cr ''type'' JNull;
     pub_type \<leftarrow> (if truthy t then Some t
                  else do {
                    pt \<leftarrow> dict_get ss ''publicationTypes'' JNull;
                    item (if truthy pt then pt else JList [JNull]) 0
                  });
     Some (if truthy pub_type then [''**Type:** '' @ py_str E pub_type] else [])
   }"

definition md_pubmed :: "builtins \<Rightarrow> json \<Rightarrow> string list option" where
  "md_pubmed E report = do {
     pmid \<leftarrow> dict_get report ''pmid'' JNull;
     pmc \<leftarrow> dict_get report ''pmc_id'' JNull;
     Some ((if truthy pmid
            then [''**PubMed:** ['' @ py_str E pmid @ ''](https://pubmed.ncbi.nlm.nih.gov/''
                  @ py_str E pmid @ ''/)'']
            else [])
         @ (if truthy pmc
            then [''**PMC:** [PMC'' @ py_str E pmc
                  @ ''](https://www.ncbi.nlm.nih.gov/pmc/articles/PMC'' @ py_str E pmc @ ''/)'']
            else []))
   }"

definition md_tldr :: "builtins \<Rightarrow> json \<Rightarrow> string list option" where
  "md_tldr E ss = do {
     tldr \<leftarrow> dict_get ss ''tldr'' (JObj []);
     txt \<leftarrow> (if is_dict tldr then dict_get tldr ''text'' JNull else Some JNull);
     Some (if truthy txt then [''## TL;DR'', [], ''*'' @ py_str E txt @ ''*'', []] else [])
   }"

definition md_abstract :: "json \<Rightarrow> json \<Rightarrow> string list option" where
  "md_abstract cr epmc = do {
     a \<leftarrow> dict_get cr ''abstract'' JNull;
     abstract \<leftarrow> (if truthy a then Some a else dict_get epmc ''abstractText'' JNull);
     if truthy abstract then
       (case abstract of
          JStr s \<Rightarrow> Some [''## Abstract'', [], strip (collapse_ws (strip_tags s)), []]
        | _ \<Rightarrow> None)
     else Some []
   }"

text \<open>Lines 543 to 568: the heading and the head of the table are appended whatever the
  sources hold; each row depends on its source's count.\<close>

definition md_citations :: "builtins \<Rightarrow> json \<Rightarrow> json \<Rightarrow> json \<Rightarrow> json \<Rightarrow> string list option" where
  "md_citations E cr oa ss epmc = do {
     cr_count \<leftarrow> dict_get cr ''is-referenced-by-count'' JNull;
     r1 \<leftarrow> (if cr_count \<noteq> JNull then do {
              c \<leftarrow> fmt_comma E cr_count;
              Some [''| CrossRef | '' @ c @ '' | - |'']
            } else Some []);
     oa_count \<leftarrow> dict_get oa ''cited_by_count'' JNull;
     r2 \<leftarrow> (if oa_count \<noteq> JNull then do {
              py \<leftarrow> dict_get oa ''cited_by_percentile_year'' (JObj []);
              percentile \<leftarrow> dict_get py ''min'' JNull;
              c \<leftarrow> fmt_comma E oa_count;
              Some [''| OpenAlex | '' @ c @ '' | ''
                    @ (if percentile \<noteq> JNull
                       then py_str E percentile @ ''th percentile for year'' else ''-'')
                    @ '' |'']
            } else Some []);
     ss_count \<leftarrow> dict_get ss ''citationCount'' JNull;
     r3 \<leftarrow> (if ss_count \<noteq> JNull then do {
              influential \<leftarrow> dict_get ss ''influentialCitationCount'' (JInt 0);
              c \<leftarrow> fmt_comma E ss_count;
              Some [''| Semantic Scholar | '' @ c @ '' | ''
                    @ (if truthy influential then py_str E influential @ '' influential''
                       else ''-'')
                    @ '' |'']
            } else Some []);
     epmc_count \<leftarrow> dict_get epmc ''citedByCount'' JNull;
     r4 \<leftarrow> (if epmc_count \<noteq> JNull then do {
              c \<leftarrow> fmt_comma E epmc_count;
              Some [''| Europe PMC | '' @ c @ '' | - |'']
            } else Some []);
     Some ([''## Citation Counts'', [], ''| Source | Citations | Notes |'',
            ''|--------|-----------|-------|'']
           @ r1 @ r2 @ r3 @ r4 @ [[]])
   }"

definition md_open_access ::
  "builtins \<Rightarrow> json \<Rightarrow> json \<Rightarrow> json \<Rightarrow> json \<Rightarrow> json \<Rightarrow> string list option" where
  "md_open_access E cr oa ss epmc report = do {
     oa_urls \<leftarrow> extract_oa_links E cr oa ss epmc report;
     Some (if oa_urls \<noteq> []
           then [''## Open Access'', []]
                @ map (\<lambda>(label, url). ''- ['' @ label @ '']('' @ py_str E url @ '')'') oa_urls
                @ [[]]
           else [])
   }"

definition md_notices :: "builtins \<Rightarrow> json \<Rightarrow> string list option" where
  "md_notices E cr = do {
     notices \<leftarrow> extract_notices E cr;
     Some (if notices \<noteq> []
           then [''## Editorial Notices'', []]
                @ map (\<lambda>notice. ''- **'' @ notice @ ''**'') notices @ [[]]
           else [])
   }"

definition user_str :: "json \<Rightarrow> string" where
  "user_str users =
     (case num users of
        Some x \<Rightarrow> str_int (py_int x) @ '' user'' @ plural users
      | None \<Rightarrow> (case users of JStr s \<Rightarrow> (if s \<noteq> [] then s @ '' users'' else []) | _ \<Rightarrow> []))"

definition md_pubpeer :: "builtins \<Rightarrow> json \<Rightarrow> json \<Rightarrow> string list option" where
  "md_pubpeer E pp doi =
     (if truthy pp then do {
        comments \<leftarrow> dict_get pp ''total_comments'' (JInt 0);
        some \<leftarrow> py_gt comments 0;
        if some then do {
          users \<leftarrow> dict_get pp ''users'' (JStr []);
          url \<leftarrow> dict_get pp ''url'' (JStr (''https://pubpeer.com/search?q='' @ py_str E doi));
          Some [''## PubPeer'', [],
                ''**'' @ py_str E comments @ '' comment'' @ plural comments @ ''**''
                @ (if user_str users \<noteq> [] then '' from '' @ user_str users else [])
                @ '' '' @ em_dash @ '' [View on PubPeer]('' @ py_str E url @ '')'',
                []]
        } else Some []
      } else Some [])"

definition md_hypothesis :: "builtins \<Rightarrow> json \<Rightarrow> json \<Rightarrow> string list option" where
  "md_hypothesis E report doi = do {
     hyp_count \<leftarrow> dict_get report ''hypothesis_annotations'' (JInt 0);
     some \<leftarrow> py_gt hyp_count 0;
     Some (if some
           then [''## Hypothesis Annotations'', [],
                 ''**'' @ py_str E hyp_count @ '' annotation'' @ plural hyp_count @ ''** ''
                 @ em_dash @ '' [View](https://hypothes.is/search?q=doi%3A'' @ py_str E doi @ '')'',
                 []]
           else [])
   }"

text \<open>\<^verbatim>\<open>[c for c in concepts if c.get("score", 0) > 0.3]\<close>\<close>

fun top_concepts :: "json list \<Rightarrow> json list option" where
  "top_concepts [] = Some []"
| "top_concepts (c # cs) = do {
     score \<leftarrow> dict_get c ''score'' (JInt 0);
     keep \<leftarrow> py_gt score (3 / 10);
     rest \<leftarrow> top_concepts cs;
     Some (if keep then c # rest else rest)
   }"

definition topic_line :: "builtins \<Rightarrow> json \<Rightarrow> string option" where
  "topic_line E c = do {
     score \<leftarrow> dict_get c ''score'' (JInt 0);
     name \<leftarrow> dict_get c ''display_name'' (JStr ''?'');
     pct \<leftarrow> fmt_percent E score;
     Some (''- '' @ py_str E name @ '' ('' @ pct @ '')'')
   }"

text \<open>A loop that appends one line per element, stopped by the first exception.\<close>

fun each_line :: "('a \<Rightarrow> string option) \<Rightarrow> 'a list \<Rightarrow> string list option" where
  "each_line f [] = Some []"
| "each_line f (x # xs) = do { l \<leftarrow> f x; ls \<leftarrow> each_line f xs; Some (l # ls) }"

definition md_topics :: "builtins \<Rightarrow> json \<Rightarrow> string list option" where
  "md_topics E oa = do {
     concepts \<leftarrow> dict_get oa ''concepts'' (JList []);
     if truthy concepts then do {
       cs \<leftarrow> iter concepts;
       kept \<leftarrow> top_concepts cs;
       let top = take 8 kept;
       if top \<noteq> [] then do {
         ls \<leftarrow> each_line (topic_line E) top;
         Some ([''## Topics'', []] @ ls @ [[]])
       } else Some []
     } else Some []
   }"

definition funder_line :: "builtins \<Rightarrow> json \<Rightarrow> string option" where
  "funder_line E f = do {
     name \<leftarrow> dict_get f ''name'' (JStr ''Unknown'');
     awards \<leftarrow> dict_get f ''award'' (JList []);
     if truthy awards then do {
       as \<leftarrow> iter awards;
       ss \<leftarrow> strs as;
       Some (''- '' @ py_str E name @ '' (grants: '' @ join '', '' ss @ '')'')
     } else Some (''- '' @ py_str E name)
   }"

definition md_funding :: "builtins \<Rightarrow> json \<Rightarrow> string list option" where
  "md_funding E cr = do {
     funders \<leftarrow> dict_get cr ''funder'' (JList []);
     if truthy funders then do {
       fs \<leftarrow> iter funders;
       ls \<leftarrow> each_line (funder_line E) fs;
       Some ([''## Funding'', []] @ ls @ [[]])
     } else Some []
   }"

text \<open>\<^verbatim>\<open>sum(1 for r in refs if r.get("DOI"))\<close>\<close>

fun refs_with_doi :: "json list \<Rightarrow> nat option" where
  "refs_with_doi [] = Some 0"
| "refs_with_doi (r # rs) = do {
     d \<leftarrow> dict_get r ''DOI'' JNull;
     n \<leftarrow> refs_with_doi rs;
     Some (if truthy d then Suc n else n)
   }"

definition md_references :: "json \<Rightarrow> string list option" where
  "md_references cr = do {
     refs \<leftarrow> dict_get cr ''reference'' (JList []);
     if truthy refs then do {
       rs \<leftarrow> iter refs;
       ref_with_doi \<leftarrow> refs_with_doi rs;
       n \<leftarrow> py_len refs;
       Some [''## References'', [],
             ''**'' @ str_nat n @ '' references** ('' @ str_nat ref_with_doi @ '' with DOI)'',
             []]
     } else Some []
   }"

definition rec_line :: "builtins \<Rightarrow> json \<Rightarrow> string option" where
  "rec_line E r = do {
     r_title \<leftarrow> dict_get r ''title'' (JStr ''Untitled'');
     r_authors \<leftarrow> dict_get r ''authors'' (JList []);
     r_year \<leftarrow> dict_get r ''year'' (JStr []);
     r_cite \<leftarrow> dict_get r ''citationCount'' (JInt 0);
     author_str \<leftarrow> (if truthy r_authors then do {
                      first \<leftarrow> item r_authors 0;
                      name \<leftarrow> dict_get first ''name'' (JStr []);
                      n \<leftarrow> py_len r_authors;
                      if n > 1 then (case name of JStr s \<Rightarrow> Some (JStr (s @ '' et al.'')) | _ \<Rightarrow> None)
                      else Some name
                    } else Some (JStr []));
     cites \<leftarrow> (if truthy r_cite then map_option (\<lambda>c. [JStr (c @ '' citations'')]) (fmt_comma E r_cite)
                else Some []);
     parts \<leftarrow> strs ([r_title]
               @ (if truthy author_str then [author_str] else [])
               @ (if truthy r_year then [JStr (py_str E r_year)] else [])
               @ cites);
     Some (''- '' @ join ('' '' @ em_dash @ '' '') parts)
   }"

definition md_recommendations :: "builtins \<Rightarrow> json \<Rightarrow> string list option" where
  "md_recommendations E report = do {
     recs \<leftarrow> dict_get report ''recommendations'' (JList []);
     if truthy recs then
       (case recs of
          JList rs \<Rightarrow> do {
            ls \<leftarrow> each_line (rec_line E) (take 5 rs);
            Some ([''## Recommended Papers'', []] @ ls @ [[]])
          }
        | _ \<Rightarrow> None)
     else Some []
   }"

subsection \<open>\<^verbatim>\<open>to_markdown\<close>\<close>

text \<open>The list \<^verbatim>\<open>lines\<close> as it stands at the end of \<^verbatim>\<open>to_markdown\<close>.\<close>

definition md_lines :: "builtins \<Rightarrow> json \<Rightarrow> string list option" where
  "md_lines E report = do {
     doi \<leftarrow> dict_item report ''doi'';
     cr \<leftarrow> source report ''crossref'' (JObj []);
     oa \<leftarrow> source report ''openalex'' (JObj []);
     ss \<leftarrow> source report ''semantic_scholar'' (JObj []);
     epmc \<leftarrow> source report ''europepmc'' (JObj []);
     pp \<leftarrow> source report ''pubpeer'' JNull;
     title \<leftarrow> md_title cr ss oa epmc doi;
     authors \<leftarrow> md_authors E cr oa ss epmc;
     journal \<leftarrow> md_journal E cr ss epmc;
     date \<leftarrow> md_date E cr ss oa epmc;
     pub_type \<leftarrow> md_type E cr ss;
     pubmed \<leftarrow> md_pubmed E report;
     tldr \<leftarrow> md_tldr E ss;
     abstract \<leftarrow> md_abstract cr epmc;
     citations \<leftarrow> md_citations E cr oa ss epmc;
     open_access \<leftarrow> md_open_access E cr oa ss epmc report;
     notices \<leftarrow> md_notices E cr;
     pubpeer \<leftarrow> md_pubpeer E pp doi;
     hypothesis \<leftarrow> md_hypothesis E report doi;
     topics \<leftarrow> md_topics E oa;
     funding \<leftarrow> md_funding E cr;
     references \<leftarrow> md_references cr;
     recommendations \<leftarrow> md_recommendations E report;
     Some ([''# '' @ py_str E title, [],
            ''**DOI:** ['' @ py_str E doi @ ''](https://doi.org/'' @ py_str E doi @ '')'']
           @ authors @ journal @ date @ pub_type @ pubmed
           @ [[], ''---'', []]
           @ tldr @ abstract @ citations @ open_access @ notices @ pubpeer @ hypothesis
           @ topics @ funding @ references @ recommendations
           @ [''---'', ''*Generated by Lazy Scholar CLI on '' @ today E @ ''*''])
   }"

definition to_markdown :: "builtins \<Rightarrow> json \<Rightarrow> string option" where
  "to_markdown E report = map_option (join [CHR 0x0A]) (md_lines E report)"

text \<open>A sample interpreter environment for concrete evaluations.\<close>

definition E0 :: builtins where
  "E0 = \<lparr>repr_of = (\<lambda>v. ''?''), comma_float = (\<lambda>x. ''?''), percent0 = (\<lambda>x. ''?''),
          set_order = remdups, today = ''2026-01-01''\<rparr>"

section \<open>Properties\<close>

lemmas eval_str = str_int_def str_nat.simps digit_char_def pad2_def

subsection \<open>Publication date\<close>

lemma cr_date_skip:
  assumes "date_parts cr key = Some dp" and "has_first dp = Some False"
  shows "cr_date E cr (key # keys) = cr_date E cr keys"
  using assms by simp

lemma cr_date_year:
  assumes "date_parts cr key = Some (JList (JList ps # rest))"
    and "ps = [y, m] \<or> ps = [y]"
  shows "cr_date E cr (key # keys) = Some (Some (JStr (py_str E y)))"
  using assms by (auto simp: has_first_def)

lemma cr_date_prefix:
  assumes "\<forall>k \<in> set pre. \<exists>dp. date_parts cr k = Some dp \<and> has_first dp = Some False"
  shows "cr_date E cr (pre @ ks) = cr_date E cr ks"
  using assms
proof (induction pre)
  case Nil
  show ?case by simp
next
  case (Cons k pre)
  from Cons.prems obtain dp where "date_parts cr k = Some dp" "has_first dp = Some False"
    by auto
  then have "cr_date E cr ((k # pre) @ ks) = cr_date E cr (pre @ ks)"
    using cr_date_skip by simp
  with Cons show ?case by simp
qed

text \<open>
  C10. When the first CrossRef date key (in the order published-print, published-online,
  issued, created) whose date-parts entry is non-empty holds a two-component entry
  \<open>[y, m]\<close>, the date is \<open>str(y)\<close>: the month is dropped, the result is the one a
  one-component entry \<open>[y]\<close> gives, and Semantic Scholar, OpenAlex and Europe PMC are
  not consulted (the result does not depend on them).
\<close>

theorem extract_date_year_month:
  assumes "date_keys = pre @ key # suf"
    and "\<forall>k \<in> set pre. \<exists>dp. date_parts cr k = Some dp \<and> has_first dp = Some False"
    and "date_parts cr key = Some (JList (JList ps # rest))"
    and "ps = [y, m] \<or> ps = [y]"
  shows "extract_date E cr ss oa epmc = Some (JStr (py_str E y))"
proof -
  have "cr_date E cr date_keys = cr_date E cr (key # suf)"
    unfolding assms(1) by (rule cr_date_prefix [OF assms(2)])
  also have "\<dots> = Some (Some (JStr (py_str E y)))"
    using assms(3,4) by (rule cr_date_year)
  finally show ?thesis by (simp add: extract_date_def)
qed

theorem extract_date_year_month_at_issued:
  "extract_date E0
     (JObj [(''published-print'', JObj []),
            (''issued'', JObj [(''date-parts'', JList [JList [JInt 2020, JInt 5]])])])
     (JObj [(''publicationDate'', JStr ''2021-03-04'')]) (JObj []) (JObj [])
   = Some (JStr ''2020'')"
  using extract_date_year_month [of "[''published-print'', ''published-online'']" "''issued''"
      "[''created'']"
      "JObj [(''published-print'', JObj []),
             (''issued'', JObj [(''date-parts'', JList [JList [JInt 2020, JInt 5]])])]"
      "[JInt 2020, JInt 5]" "[]" "JInt 2020" "JInt 5" E0
      "JObj [(''publicationDate'', JStr ''2021-03-04'')]" "JObj []" "JObj []"]
  by (simp add: date_keys_def date_parts_def has_first_def eval_str)

subsection \<open>Editorial notices\<close>

lemma update_notices_mem:
  assumes "update_notices us = Some r" and "u \<in> set us" and "update_label u = Some l"
  shows "set (label_notice l) \<subseteq> set r"
  using assms
  by (induction us arbitrary: r) (auto split: bind_splits)

lemma count_list_distinct:
  "distinct xs \<Longrightarrow> x \<in> set xs \<Longrightarrow> count_list xs x = 1"
  by (induction xs) (auto simp: count_list_0_iff)

lemma extract_notices_raw:
  assumes "extract_notices E cr = Some ns"
  shows "\<exists>us r pre. updates_of cr = Some us \<and> update_notices us = Some r \<and>
    ns = set_order E (pre @ r)"
proof -
  from assms obtain a b us r where "updates_of cr = Some us" "update_notices us = Some r"
    "ns = set_order E (a @ b @ r)"
    by (auto simp: extract_notices_def split: bind_splits)
  then have "updates_of cr = Some us \<and> update_notices us = Some r \<and>
    ns = set_order E ((a @ b) @ r)" by simp
  then show ?thesis by blast
qed

text \<open>
  C9, as the code has it. Whatever order \<^verbatim>\<open>list(set(notices))\<close> lists a set in, the notices
  returned for a CrossRef record hold no duplicate; and when some update of the record
  (update-to followed by updated-by) has a label that contains "erratum" and does not
  contain "retract", case-insensitively, exactly one "Has correction/erratum" notice is
  returned, however many such updates there are.
\<close>

theorem extract_notices_distinct:
  assumes ord: "\<forall>xs. distinct (set_order E xs) \<and> set (set_order E xs) = set xs"
    and res: "extract_notices E cr = Some ns"
  shows "distinct ns \<and>
    (\<forall>us u l. updates_of cr = Some us \<and> u \<in> set us \<and> update_label u = Some l \<and>
        is_sub ''erratum'' l \<and> \<not> is_sub ''retract'' l
      \<longrightarrow> count_list ns ''Has correction/erratum'' = 1)"
proof -
  from res obtain us r pre where us: "updates_of cr = Some us"
    and r: "update_notices us = Some r" and ns: "ns = set_order E (pre @ r)"
    using extract_notices_raw by blast
  have d: "distinct ns" using ord ns by simp
  have "count_list ns ''Has correction/erratum'' = 1"
    if "updates_of cr = Some us'" "u \<in> set us'" "update_label u = Some l"
      "is_sub ''erratum'' l" "\<not> is_sub ''retract'' l" for us' u l
  proof -
    from that(1) us have "us' = us" by simp
    with that(2) have "u \<in> set us" by simp
    then have "set (label_notice l) \<subseteq> set r"
      using r that(3) update_notices_mem by blast
    moreover have "label_notice l = [''Has correction/erratum'']"
      using that(4,5) by (simp add: label_notice_def)
    ultimately have "''Has correction/erratum'' \<in> set r" by simp
    then have "''Has correction/erratum'' \<in> set ns" using ord ns by simp
    with d show ?thesis by (rule count_list_distinct)
  qed
  with d show ?thesis by blast
qed

text \<open>Three updates, two of them errata: one erratum notice.\<close>

theorem extract_notices_distinct_witness:
  "extract_notices E0
     (JObj [(''update-to'', JList [JObj [(''label'', JStr ''Erratum'')]]),
            (''updated-by'', JList [JObj [(''label'', JStr ''Publisher Erratum'')],
                                   JObj [(''label'', JStr ''Retraction'')]])])
     = Some [''Has correction/erratum'', ''RETRACTED'']
   \<and> distinct [''Has correction/erratum'', ''RETRACTED'']
   \<and> count_list [''Has correction/erratum'', ''RETRACTED''] ''Has correction/erratum'' = 1"
  using extract_notices_distinct [of E0
     "JObj [(''update-to'', JList [JObj [(''label'', JStr ''Erratum'')]]),
            (''updated-by'', JList [JObj [(''label'', JStr ''Publisher Erratum'')],
                                   JObj [(''label'', JStr ''Retraction'')]])]"
     "[''Has correction/erratum'', ''RETRACTED'']"]
  by (simp add: extract_notices_def updates_of_def update_label_def label_notice_def lower_def
      lower_char_def E0_def)

text \<open>
  The claim as written fails: the label "Retraction of erratum" contains "erratum", and
  the only notice is RETRACTED, since "retract" is tested first.
\<close>

theorem extract_notices_erratum_counterexample:
  "updates_of (JObj [(''update-to'', JList [JObj [(''label'', JStr ''Retraction of erratum'')]])])
     = Some [JObj [(''label'', JStr ''Retraction of erratum'')]]
   \<and> update_label (JObj [(''label'', JStr ''Retraction of erratum'')]) = Some ''retraction of erratum''
   \<and> is_sub ''erratum'' ''retraction of erratum''
   \<and> extract_notices E0
        (JObj [(''update-to'', JList [JObj [(''label'', JStr ''Retraction of erratum'')]])])
      = Some [''RETRACTED'']
   \<and> count_list [''RETRACTED''] ''Has correction/erratum'' = 0"
  by (simp add: extract_notices_def updates_of_def update_label_def label_notice_def lower_def
      lower_char_def E0_def)

subsection \<open>Authors\<close>

text \<open>
  C6 at a failing input. OpenAlex lists one authorship with no display name and Semantic
  Scholar names the author: the OpenAlex branch returns its empty list, and Semantic
  Scholar is not consulted. The CrossRef branch, in the same place, goes on to the next
  source (second statement).
\<close>

theorem extract_authors_openalex_stops:
  "extract_authors E0 (JObj [])
     (JObj [(''authorships'', JList [JObj [(''author'', JObj [])]])])
     (JObj [(''authors'', JList [JObj [(''name'', JStr ''Ada Lovelace'')]])])
     (JObj [])
   = Some []
   \<and> extract_authors E0 (JObj [(''author'', JList [JObj [(''given'', JStr '' '')]])])
     (JObj [])
     (JObj [(''authors'', JList [JObj [(''name'', JStr ''Ada Lovelace'')]])])
     (JObj [])
   = Some [JStr ''Ada Lovelace'']"
  by (simp add: extract_authors_def oa_display_def cr_name_def strip_def is_space_def)

subsection \<open>Open-access links\<close>

lemma epmc_pdf_skip:
  assumes "\<forall>p\<in>set pre. \<exists>st. dict_get p ''documentStyle'' JNull = Some st \<and> st \<noteq> JStr ''pdf''"
  shows "epmc_pdf (pre @ rest) = epmc_pdf rest"
  using assms by (induction pre) auto

lemma epmc_pdf_first:
  assumes "epmc_pdf us = Some l"
  shows "first_pdf us l"
  using assms
proof (induction us)
  case Nil
  then show ?case by simp
next
  case (Cons u us)
  from Cons.prems obtain st where st: "dict_get u ''documentStyle'' JNull = Some st"
    by (auto split: bind_splits)
  show ?case
  proof (cases "st = JStr ''pdf''")
    case True
    with st Cons.prems obtain url where "dict_item u ''url'' = Some url"
      "l = [(''Europe PMC PDF'', url)]"
      by (auto split: bind_splits)
    with st True have "u # us = [] @ u # us
        \<and> (\<forall>p\<in>set []. \<exists>st. dict_get p ''documentStyle'' JNull = Some st \<and> st \<noteq> JStr ''pdf'')
        \<and> dict_get u ''documentStyle'' JNull = Some (JStr ''pdf'')
        \<and> dict_item u ''url'' = Some url \<and> l = [(''Europe PMC PDF'', url)]"
      by simp
    then show ?thesis by blast
  next
    case False
    with st Cons.prems have "epmc_pdf us = Some l" by simp
    from Cons.IH [OF this] show ?thesis
    proof
      assume "\<exists>pre u' suf url. us = pre @ u' # suf
        \<and> (\<forall>p\<in>set pre. \<exists>st. dict_get p ''documentStyle'' JNull = Some st \<and> st \<noteq> JStr ''pdf'')
        \<and> dict_get u' ''documentStyle'' JNull = Some (JStr ''pdf'')
        \<and> dict_item u' ''url'' = Some url \<and> l = [(''Europe PMC PDF'', url)]"
      then obtain pre u' suf url where "us = pre @ u' # suf"
        "\<forall>p\<in>set pre. \<exists>st. dict_get p ''documentStyle'' JNull = Some st \<and> st \<noteq> JStr ''pdf''"
        "dict_get u' ''documentStyle'' JNull = Some (JStr ''pdf'')"
        "dict_item u' ''url'' = Some url" "l = [(''Europe PMC PDF'', url)]"
        by blast
      with st False have "u # us = (u # pre) @ u' # suf
        \<and> (\<forall>p\<in>set (u # pre). \<exists>st. dict_get p ''documentStyle'' JNull = Some st \<and> st \<noteq> JStr ''pdf'')
        \<and> dict_get u' ''documentStyle'' JNull = Some (JStr ''pdf'')
        \<and> dict_item u' ''url'' = Some url \<and> l = [(''Europe PMC PDF'', url)]"
        by simp
      then show ?thesis by blast
    next
      assume "(\<forall>p\<in>set us. \<exists>st. dict_get p ''documentStyle'' JNull = Some st \<and> st \<noteq> JStr ''pdf'')
        \<and> l = []"
      with st False show ?thesis by simp
    qed
  qed
qed

lemma epmc_pdf_iff: "epmc_pdf us = Some l \<longleftrightarrow> first_pdf us l"
proof
  assume "epmc_pdf us = Some l"
  then show "first_pdf us l" by (rule epmc_pdf_first)
next
  assume "first_pdf us l"
  then show "epmc_pdf us = Some l"
  proof
    assume "\<exists>pre u suf url. us = pre @ u # suf
        \<and> (\<forall>p\<in>set pre. \<exists>st. dict_get p ''documentStyle'' JNull = Some st \<and> st \<noteq> JStr ''pdf'')
        \<and> dict_get u ''documentStyle'' JNull = Some (JStr ''pdf'')
        \<and> dict_item u ''url'' = Some url \<and> l = [(''Europe PMC PDF'', url)]"
    then obtain pre u suf url where us: "us = pre @ u # suf"
      and pre: "\<forall>p\<in>set pre. \<exists>st. dict_get p ''documentStyle'' JNull = Some st \<and> st \<noteq> JStr ''pdf''"
      and u: "dict_get u ''documentStyle'' JNull = Some (JStr ''pdf'')"
        "dict_item u ''url'' = Some url" "l = [(''Europe PMC PDF'', url)]"
      by blast
    have "epmc_pdf us = epmc_pdf (u # suf)" unfolding us using pre by (rule epmc_pdf_skip)
    with u show ?thesis by simp
  next
    assume a: "(\<forall>p\<in>set us. \<exists>st. dict_get p ''documentStyle'' JNull = Some st \<and> st \<noteq> JStr ''pdf'')
        \<and> l = []"
    then have "epmc_pdf (us @ []) = epmc_pdf []" by (intro epmc_pdf_skip) simp
    with a show ?thesis by simp
  qed
qed

lemma cc_license_skip:
  assumes "\<forall>p\<in>set pre. \<exists>v. license_cc p = Some (v, False)"
  shows "cc_license (pre @ rest) = cc_license rest"
  using assms by (induction pre) auto

lemma cc_license_first:
  assumes "cc_license lics = Some l"
  shows "first_cc lics l"
  using assms
proof (induction lics)
  case Nil
  then show ?case by simp
next
  case (Cons lic lics)
  from Cons.prems obtain u cc where lc: "license_cc lic = Some (u, cc)"
    by (auto split: bind_splits)
  show ?case
  proof (cases cc)
    case True
    with lc Cons.prems have "l = [(''License'', u)]" by simp
    with lc True have "lic # lics = [] @ lic # lics
        \<and> (\<forall>p\<in>set []. \<exists>v. license_cc p = Some (v, False))
        \<and> license_cc lic = Some (u, True) \<and> l = [(''License'', u)]"
      by simp
    then show ?thesis by blast
  next
    case False
    with lc Cons.prems have "cc_license lics = Some l" by simp
    from Cons.IH [OF this] show ?thesis
    proof
      assume "\<exists>pre lic' suf u'. lics = pre @ lic' # suf
        \<and> (\<forall>p\<in>set pre. \<exists>v. license_cc p = Some (v, False))
        \<and> license_cc lic' = Some (u', True) \<and> l = [(''License'', u')]"
      then obtain pre lic' suf u' where "lics = pre @ lic' # suf"
        "\<forall>p\<in>set pre. \<exists>v. license_cc p = Some (v, False)"
        "license_cc lic' = Some (u', True)" "l = [(''License'', u')]"
        by blast
      with lc False have "lic # lics = (lic # pre) @ lic' # suf
        \<and> (\<forall>p\<in>set (lic # pre). \<exists>v. license_cc p = Some (v, False))
        \<and> license_cc lic' = Some (u', True) \<and> l = [(''License'', u')]"
        by simp
      then show ?thesis by blast
    next
      assume "(\<forall>p\<in>set lics. \<exists>v. license_cc p = Some (v, False)) \<and> l = []"
      with lc False show ?thesis by simp
    qed
  qed
qed

lemma cc_license_iff: "cc_license lics = Some l \<longleftrightarrow> first_cc lics l"
proof
  assume "cc_license lics = Some l"
  then show "first_cc lics l" by (rule cc_license_first)
next
  assume "first_cc lics l"
  then show "cc_license lics = Some l"
  proof
    assume "\<exists>pre lic suf u. lics = pre @ lic # suf
        \<and> (\<forall>p\<in>set pre. \<exists>v. license_cc p = Some (v, False))
        \<and> license_cc lic = Some (u, True) \<and> l = [(''License'', u)]"
    then obtain pre lic suf u where lics: "lics = pre @ lic # suf"
      and pre: "\<forall>p\<in>set pre. \<exists>v. license_cc p = Some (v, False)"
      and u: "license_cc lic = Some (u, True)" "l = [(''License'', u)]"
      by blast
    have "cc_license lics = cc_license (lic # suf)" unfolding lics using pre
      by (rule cc_license_skip)
    with u show ?thesis by simp
  next
    assume a: "(\<forall>p\<in>set lics. \<exists>v. license_cc p = Some (v, False)) \<and> l = []"
    then have "cc_license (lics @ []) = cc_license []" by (intro cc_license_skip) simp
    with a show ?thesis by simp
  qed
qed

lemma pmc_link_iff:
  "pmc_link E report = Some l \<longleftrightarrow>
     (\<exists>pmc. dict_get report ''pmc_id'' JNull = Some pmc
        \<and> l = (if truthy pmc
               then [(''PubMed Central'',
                      JStr (''https://www.ncbi.nlm.nih.gov/pmc/articles/PMC'' @ py_str E pmc @ ''/''))]
               else []))"
  by (auto simp: pmc_link_def split: bind_splits)

lemma ss_link_iff:
  "ss_link ss = Some l \<longleftrightarrow>
     (\<exists>ss_pdf. dict_get ss ''openAccessPdf'' (JObj []) = Some ss_pdf
        \<and> (if is_dict ss_pdf
            then \<exists>url. dict_get ss_pdf ''url'' JNull = Some url
                   \<and> l = (if truthy url then [(''Semantic Scholar PDF'', url)] else [])
            else l = []))"
  by (auto simp: ss_link_def split: bind_splits)

lemma oa_link_iff:
  "oa_link E oa = Some l \<longleftrightarrow>
     (\<exists>oa_access. dict_get oa ''open_access'' (JObj []) = Some oa_access
        \<and> (if is_dict oa_access
            then \<exists>url status. dict_get oa_access ''oa_url'' JNull = Some url
                   \<and> dict_get oa_access ''oa_status'' (JStr ''open'') = Some status
                   \<and> l = (if truthy url then [(''OpenAlex ('' @ py_str E status @ '')'', url)]
                          else [])
            else l = []))"
  by (auto simp: oa_link_def split: bind_splits)

lemma epmc_link_iff:
  "epmc_link epmc = Some l \<longleftrightarrow>
     (\<exists>flag. dict_get epmc ''isOpenAccess'' JNull = Some flag
        \<and> (if flag = JStr ''Y''
            then \<exists>us. epmc_urls_of epmc = Some us \<and> first_pdf us l
            else l = []))"
  unfolding epmc_pdf_iff [symmetric]
  by (auto simp: epmc_link_def split: bind_splits)

lemma cr_link_iff:
  "cr_link cr = Some l \<longleftrightarrow> (\<exists>lics. licenses_of cr = Some lics \<and> first_cc lics l)"
  unfolding cc_license_iff [symmetric]
  by (auto simp: cr_link_def split: bind_splits)

lemma extract_oa_links_iff:
  "extract_oa_links E cr oa ss epmc report = Some links \<longleftrightarrow>
     (\<exists>l1 l2 l3 l4 l5. pmc_link E report = Some l1 \<and> ss_link ss = Some l2
        \<and> oa_link E oa = Some l3 \<and> epmc_link epmc = Some l4 \<and> cr_link cr = Some l5
        \<and> links = l1 @ l2 @ l3 @ l4 @ l5)"
  by (auto simp: extract_oa_links_def split: bind_splits)

lemma map_of_other_key:
  "k \<noteq> s \<Longrightarrow> map_of (pre @ (s, x) # rest) k = map_of (pre @ (s, y) # rest) k"
  by (induction pre) auto

lemma report_get_other:
  "k \<noteq> ''sources'' \<Longrightarrow>
   dict_get (JObj (pre @ (''sources'', x) # rest)) k d
     = dict_get (JObj (pre @ (''sources'', y) # rest)) k d"
  using map_of_other_key [of k "''sources''" pre x rest y] by simp

lemma report_item_other:
  "k \<noteq> ''sources'' \<Longrightarrow>
   dict_item (JObj (pre @ (''sources'', x) # rest)) k
     = dict_item (JObj (pre @ (''sources'', y) # rest)) k"
  using map_of_other_key [of k "''sources''" pre x rest y] by simp

lemma report_source_order:
  assumes "distinct (map fst srcs)" "distinct (map fst srcs')" "set srcs = set srcs'"
  shows "source (JObj (pre @ (''sources'', JObj srcs) # rest)) name d
           = source (JObj (pre @ (''sources'', JObj srcs') # rest)) name d"
proof -
  from assms have m: "map_of srcs = map_of srcs'" by (simp add: map_of_inject_set)
  show ?thesis
  proof (induction pre)
    case Nil
    show ?case by (simp add: source_def m)
  next
    case (Cons kv pre)
    then show ?case by (cases kv) (simp add: source_def)
  qed
qed

lemma md_lines_source_order:
  assumes "distinct (map fst srcs)" "distinct (map fst srcs')" "set srcs = set srcs'"
  shows "md_lines E (JObj (pre @ (''sources'', JObj srcs) # rest))
           = md_lines E (JObj (pre @ (''sources'', JObj srcs') # rest))"
proof -
  let ?r = "JObj (pre @ (''sources'', JObj srcs) # rest)"
  let ?r' = "JObj (pre @ (''sources'', JObj srcs') # rest)"
  have s: "\<And>name d. source ?r name d = source ?r' name d"
    by (rule report_source_order [OF assms])
  have i: "dict_item ?r ''doi'' = dict_item ?r' ''doi''"
    by (rule report_item_other) simp
  have g1: "dict_get ?r ''pmc_id'' JNull = dict_get ?r' ''pmc_id'' JNull"
    by (rule report_get_other) simp
  have g2: "dict_get ?r ''pmid'' JNull = dict_get ?r' ''pmid'' JNull"
    by (rule report_get_other) simp
  have g3: "dict_get ?r ''hypothesis_annotations'' (JInt 0)
              = dict_get ?r' ''hypothesis_annotations'' (JInt 0)"
    by (rule report_get_other) simp
  have g4: "dict_get ?r ''recommendations'' (JList [])
              = dict_get ?r' ''recommendations'' (JList [])"
    by (rule report_get_other) simp
  show ?thesis
    unfolding md_lines_def md_open_access_def extract_oa_links_def pmc_link_def md_pubmed_def
      md_hypothesis_def md_recommendations_def s i g1 g2 g3 g4
    by (rule refl)
qed

lemma links_source_order:
  assumes "distinct (map fst srcs)" "distinct (map fst srcs')" "set srcs = set srcs'"
  shows "do {
           cr \<leftarrow> source (JObj (pre @ (''sources'', JObj srcs) # rest)) ''crossref'' (JObj []);
           oa \<leftarrow> source (JObj (pre @ (''sources'', JObj srcs) # rest)) ''openalex'' (JObj []);
           ss \<leftarrow> source (JObj (pre @ (''sources'', JObj srcs) # rest)) ''semantic_scholar'' (JObj []);
           epmc \<leftarrow> source (JObj (pre @ (''sources'', JObj srcs) # rest)) ''europepmc'' (JObj []);
           extract_oa_links E cr oa ss epmc (JObj (pre @ (''sources'', JObj srcs) # rest))
         } = do {
           cr \<leftarrow> source (JObj (pre @ (''sources'', JObj srcs') # rest)) ''crossref'' (JObj []);
           oa \<leftarrow> source (JObj (pre @ (''sources'', JObj srcs') # rest)) ''openalex'' (JObj []);
           ss \<leftarrow> source (JObj (pre @ (''sources'', JObj srcs') # rest)) ''semantic_scholar'' (JObj []);
           epmc \<leftarrow> source (JObj (pre @ (''sources'', JObj srcs') # rest)) ''europepmc'' (JObj []);
           extract_oa_links E cr oa ss epmc (JObj (pre @ (''sources'', JObj srcs') # rest))
         }"
proof -
  let ?r = "JObj (pre @ (''sources'', JObj srcs) # rest)"
  let ?r' = "JObj (pre @ (''sources'', JObj srcs') # rest)"
  have s: "\<And>name d. source ?r name d = source ?r' name d"
    by (rule report_source_order [OF assms])
  have g1: "dict_get ?r ''pmc_id'' JNull = dict_get ?r' ''pmc_id'' JNull"
    by (rule report_get_other) simp
  show ?thesis
    unfolding extract_oa_links_def pmc_link_def s g1 by (rule refl)
qed

lemma links_parts:
  "(\<exists>l1 l2 l3 l4 l5. (\<exists>p. D1 p \<and> l1 = f p) \<and> (\<exists>s. D2 s \<and> C2 s l2) \<and> (\<exists>a. D3 a \<and> C3 a l3)
        \<and> (\<exists>g. D4 g \<and> C4 g l4) \<and> A5 l5 \<and> links = l1 @ l2 @ l3 @ l4 @ l5)
   \<longleftrightarrow> (\<exists>p s a g l2 l3 l4 l5. D1 p \<and> D2 s \<and> D3 a \<and> D4 g \<and> links = f p @ l2 @ l3 @ l4 @ l5
        \<and> C2 s l2 \<and> C3 a l3 \<and> C4 g l4 \<and> A5 l5)"
  by blast

text \<open>
  C8. \<^verbatim>\<open>_extract_oa_links\<close> returns a list exactly when the five lookups it makes succeed,
  and the list is then the concatenation, in this order, of: the PubMed Central link when
  the report has a truthy \<^verbatim>\<open>pmc_id\<close>; the Semantic Scholar PDF when \<^verbatim>\<open>openAccessPdf\<close> is a
  dict with a truthy \<^verbatim>\<open>url\<close>; the OpenAlex link, labelled with \<^verbatim>\<open>oa_status\<close>, when
  \<^verbatim>\<open>open_access\<close> is a dict with a truthy \<^verbatim>\<open>oa_url\<close>; the first PDF of Europe PMC's full-text
  URLs when \<^verbatim>\<open>isOpenAccess\<close> is exactly \<^verbatim>\<open>"Y"\<close>, and nothing from Europe PMC otherwise; and
  the first license of CrossRef whose URL contains \<^verbatim>\<open>creativecommons.org\<close>. Each part is
  empty or one link. The statement is an equivalence, so it fixes the list and not only a
  bound on it. The order of the entries of the \<^verbatim>\<open>sources\<close> mapping has no effect: for a
  report of any shape \<^verbatim>\<open>{..., "sources": {...}, ...}\<close>, as \<^verbatim>\<open>aggregate_paper_data\<close> builds it with
  \<^verbatim>\<open>doi\<close> in front, two mappings with the same entries give the same link list, read as
  \<^verbatim>\<open>to_markdown\<close> reads it, and the same document.
\<close>

theorem extract_oa_links_fixed_order:
  "(extract_oa_links E cr oa ss epmc report = Some links \<longleftrightarrow>
      (\<exists>pmc ss_pdf oa_access flag l2 l3 l4 l5.
          dict_get report ''pmc_id'' JNull = Some pmc
        \<and> dict_get ss ''openAccessPdf'' (JObj []) = Some ss_pdf
        \<and> dict_get oa ''open_access'' (JObj []) = Some oa_access
        \<and> dict_get epmc ''isOpenAccess'' JNull = Some flag
        \<and> links = (if truthy pmc
                    then [(''PubMed Central'',
                           JStr (''https://www.ncbi.nlm.nih.gov/pmc/articles/PMC''
                                 @ py_str E pmc @ ''/''))]
                    else []) @ l2 @ l3 @ l4 @ l5
        \<and> (if is_dict ss_pdf
            then \<exists>url. dict_get ss_pdf ''url'' JNull = Some url
                   \<and> l2 = (if truthy url then [(''Semantic Scholar PDF'', url)] else [])
            else l2 = [])
        \<and> (if is_dict oa_access
            then \<exists>url status. dict_get oa_access ''oa_url'' JNull = Some url
                   \<and> dict_get oa_access ''oa_status'' (JStr ''open'') = Some status
                   \<and> l3 = (if truthy url then [(''OpenAlex ('' @ py_str E status @ '')'', url)]
                           else [])
            else l3 = [])
        \<and> (if flag = JStr ''Y''
            then \<exists>us. epmc_urls_of epmc = Some us \<and> first_pdf us l4
            else l4 = [])
        \<and> (\<exists>lics. licenses_of cr = Some lics \<and> first_cc lics l5)))
   \<and> (distinct (map fst srcs) \<and> distinct (map fst srcs') \<and> set srcs = set srcs' \<longrightarrow>
        do {
          cr \<leftarrow> source (JObj (pre @ (''sources'', JObj srcs) # rest)) ''crossref'' (JObj []);
          oa \<leftarrow> source (JObj (pre @ (''sources'', JObj srcs) # rest)) ''openalex'' (JObj []);
          ss \<leftarrow> source (JObj (pre @ (''sources'', JObj srcs) # rest)) ''semantic_scholar'' (JObj []);
          epmc \<leftarrow> source (JObj (pre @ (''sources'', JObj srcs) # rest)) ''europepmc'' (JObj []);
          extract_oa_links E cr oa ss epmc (JObj (pre @ (''sources'', JObj srcs) # rest))
        } = do {
          cr \<leftarrow> source (JObj (pre @ (''sources'', JObj srcs') # rest)) ''crossref'' (JObj []);
          oa \<leftarrow> source (JObj (pre @ (''sources'', JObj srcs') # rest)) ''openalex'' (JObj []);
          ss \<leftarrow> source (JObj (pre @ (''sources'', JObj srcs') # rest)) ''semantic_scholar'' (JObj []);
          epmc \<leftarrow> source (JObj (pre @ (''sources'', JObj srcs') # rest)) ''europepmc'' (JObj []);
          extract_oa_links E cr oa ss epmc (JObj (pre @ (''sources'', JObj srcs') # rest))
        }
        \<and> md_lines E (JObj (pre @ (''sources'', JObj srcs) # rest))
            = md_lines E (JObj (pre @ (''sources'', JObj srcs') # rest)))"
proof (intro conjI impI)
  show "extract_oa_links E cr oa ss epmc report = Some links \<longleftrightarrow>
      (\<exists>pmc ss_pdf oa_access flag l2 l3 l4 l5.
          dict_get report ''pmc_id'' JNull = Some pmc
        \<and> dict_get ss ''openAccessPdf'' (JObj []) = Some ss_pdf
        \<and> dict_get oa ''open_access'' (JObj []) = Some oa_access
        \<and> dict_get epmc ''isOpenAccess'' JNull = Some flag
        \<and> links = (if truthy pmc
                    then [(''PubMed Central'',
                           JStr (''https://www.ncbi.nlm.nih.gov/pmc/articles/PMC''
                                 @ py_str E pmc @ ''/''))]
                    else []) @ l2 @ l3 @ l4 @ l5
        \<and> (if is_dict ss_pdf
            then \<exists>url. dict_get ss_pdf ''url'' JNull = Some url
                   \<and> l2 = (if truthy url then [(''Semantic Scholar PDF'', url)] else [])
            else l2 = [])
        \<and> (if is_dict oa_access
            then \<exists>url status. dict_get oa_access ''oa_url'' JNull = Some url
                   \<and> dict_get oa_access ''oa_status'' (JStr ''open'') = Some status
                   \<and> l3 = (if truthy url then [(''OpenAlex ('' @ py_str E status @ '')'', url)]
                           else [])
            else l3 = [])
        \<and> (if flag = JStr ''Y''
            then \<exists>us. epmc_urls_of epmc = Some us \<and> first_pdf us l4
            else l4 = [])
        \<and> (\<exists>lics. licenses_of cr = Some lics \<and> first_cc lics l5))"
    unfolding extract_oa_links_iff pmc_link_iff ss_link_iff oa_link_iff epmc_link_iff
      cr_link_iff
    by (rule links_parts)
next
  assume a: "distinct (map fst srcs) \<and> distinct (map fst srcs') \<and> set srcs = set srcs'"
  then have 1: "distinct (map fst srcs)" and 2: "distinct (map fst srcs')"
    and 3: "set srcs = set srcs'" by simp_all
  show "do {
          cr \<leftarrow> source (JObj (pre @ (''sources'', JObj srcs) # rest)) ''crossref'' (JObj []);
          oa \<leftarrow> source (JObj (pre @ (''sources'', JObj srcs) # rest)) ''openalex'' (JObj []);
          ss \<leftarrow> source (JObj (pre @ (''sources'', JObj srcs) # rest)) ''semantic_scholar'' (JObj []);
          epmc \<leftarrow> source (JObj (pre @ (''sources'', JObj srcs) # rest)) ''europepmc'' (JObj []);
          extract_oa_links E cr oa ss epmc (JObj (pre @ (''sources'', JObj srcs) # rest))
        } = do {
          cr \<leftarrow> source (JObj (pre @ (''sources'', JObj srcs') # rest)) ''crossref'' (JObj []);
          oa \<leftarrow> source (JObj (pre @ (''sources'', JObj srcs') # rest)) ''openalex'' (JObj []);
          ss \<leftarrow> source (JObj (pre @ (''sources'', JObj srcs') # rest)) ''semantic_scholar'' (JObj []);
          epmc \<leftarrow> source (JObj (pre @ (''sources'', JObj srcs') # rest)) ''europepmc'' (JObj []);
          extract_oa_links E cr oa ss epmc (JObj (pre @ (''sources'', JObj srcs') # rest))
        }"
    by (rule links_source_order [OF 1 2 3])
  show "md_lines E (JObj (pre @ (''sources'', JObj srcs) # rest))
            = md_lines E (JObj (pre @ (''sources'', JObj srcs') # rest))"
    by (rule md_lines_source_order [OF 1 2 3])
qed

theorem extract_oa_links_fixed_order_witness:
  "extract_oa_links E0
     (JObj [(''license'', JList [JObj [(''URL'', JStr ''x.org/l'')],
                                 JObj [(''URL'', JStr ''creativecommons.org/by'')],
                                 JObj [(''URL'', JStr ''creativecommons.org/nc'')]])])
     (JObj [(''open_access'', JObj [(''oa_url'', JStr ''o.pdf''), (''oa_status'', JStr ''gold'')])])
     (JObj [(''openAccessPdf'', JObj [(''url'', JStr ''s.pdf'')])])
     (JObj [(''isOpenAccess'', JStr ''Y''),
            (''fullTextUrlList'', JObj [(''fullTextUrl'', JList
               [JObj [(''documentStyle'', JStr ''html''), (''url'', JStr ''e.html'')],
                JObj [(''documentStyle'', JStr ''pdf''), (''url'', JStr ''e.pdf'')],
                JObj [(''documentStyle'', JStr ''pdf''), (''url'', JStr ''f.pdf'')]])])])
     (JObj [(''doi'', JStr ''10.1/x''), (''sources'', JObj []), (''pmc_id'', JStr ''77'')])
   = Some [(''PubMed Central'', JStr ''https://www.ncbi.nlm.nih.gov/pmc/articles/PMC77/''),
           (''Semantic Scholar PDF'', JStr ''s.pdf''),
           (''OpenAlex (gold)'', JStr ''o.pdf''),
           (''Europe PMC PDF'', JStr ''e.pdf''),
           (''License'', JStr ''creativecommons.org/by'')]
   \<and> md_lines E0
       (JObj [(''doi'', JStr ''10.1/x''),
              (''sources'', JObj
                 [(''openalex'', JObj [(''open_access'',
                     JObj [(''oa_url'', JStr ''o.pdf''), (''oa_status'', JStr ''gold'')])]),
                  (''semantic_scholar'', JObj [(''openAccessPdf'', JObj [(''url'', JStr ''s.pdf'')])])]),
              (''pmc_id'', JStr ''77'')])
     = Some [''# 10.1/x'', [], ''**DOI:** [10.1/x](https://doi.org/10.1/x)'',
             ''**PMC:** [PMC77](https://www.ncbi.nlm.nih.gov/pmc/articles/PMC77/)'',
             [], ''---'', [], ''## Citation Counts'', [],
             ''| Source | Citations | Notes |'', ''|--------|-----------|-------|'',
             [], ''## Open Access'', [],
             ''- [PubMed Central](https://www.ncbi.nlm.nih.gov/pmc/articles/PMC77/)'',
             ''- [Semantic Scholar PDF](s.pdf)'', ''- [OpenAlex (gold)](o.pdf)'', [],
             ''---'', ''*Generated by Lazy Scholar CLI on 2026-01-01*'']"
proof
  let ?u1 = "JObj [(''documentStyle'', JStr ''html''), (''url'', JStr ''e.html'')]"
  let ?u2 = "JObj [(''documentStyle'', JStr ''pdf''), (''url'', JStr ''e.pdf'')]"
  let ?u3 = "JObj [(''documentStyle'', JStr ''pdf''), (''url'', JStr ''f.pdf'')]"
  let ?c1 = "JObj [(''URL'', JStr ''x.org/l'')]"
  let ?c2 = "JObj [(''URL'', JStr ''creativecommons.org/by'')]"
  let ?c3 = "JObj [(''URL'', JStr ''creativecommons.org/nc'')]"
  let ?cr = "JObj [(''license'', JList [?c1, ?c2, ?c3])]"
  let ?oa = "JObj [(''open_access'', JObj [(''oa_url'', JStr ''o.pdf''), (''oa_status'', JStr ''gold'')])]"
  let ?ss = "JObj [(''openAccessPdf'', JObj [(''url'', JStr ''s.pdf'')])]"
  let ?epmc = "JObj [(''isOpenAccess'', JStr ''Y''),
            (''fullTextUrlList'', JObj [(''fullTextUrl'', JList [?u1, ?u2, ?u3])])]"
  let ?r = "JObj [(''doi'', JStr ''10.1/x''), (''sources'', JObj []), (''pmc_id'', JStr ''77'')]"
  have "[?u1, ?u2, ?u3] = [?u1] @ ?u2 # [?u3]
        \<and> (\<forall>p\<in>set [?u1]. \<exists>st. dict_get p ''documentStyle'' JNull = Some st \<and> st \<noteq> JStr ''pdf'')
        \<and> dict_get ?u2 ''documentStyle'' JNull = Some (JStr ''pdf'')
        \<and> dict_item ?u2 ''url'' = Some (JStr ''e.pdf'')
        \<and> [(''Europe PMC PDF'', JStr ''e.pdf'')] = [(''Europe PMC PDF'', JStr ''e.pdf'')]"
    by simp
  then have pdf: "first_pdf [?u1, ?u2, ?u3] [(''Europe PMC PDF'', JStr ''e.pdf'')]"
    by blast
  have c1: "license_cc ?c1 = Some (JStr ''x.org/l'', False)" by code_simp
  have c2: "license_cc ?c2 = Some (JStr ''creativecommons.org/by'', True)" by code_simp
  have "[?c1, ?c2, ?c3] = [?c1] @ ?c2 # [?c3]
        \<and> (\<forall>p\<in>set [?c1]. \<exists>v. license_cc p = Some (v, False))
        \<and> license_cc ?c2 = Some (JStr ''creativecommons.org/by'', True)
        \<and> [(''License'', JStr ''creativecommons.org/by'')]
            = [(''License'', JStr ''creativecommons.org/by'')]"
    using c1 c2 by simp
  then have cc: "first_cc [?c1, ?c2, ?c3] [(''License'', JStr ''creativecommons.org/by'')]"
    by blast
  have us: "epmc_urls_of ?epmc = Some [?u1, ?u2, ?u3]" by (simp add: epmc_urls_of_def)
  have lics: "licenses_of ?cr = Some [?c1, ?c2, ?c3]" by (simp add: licenses_of_def)
  have e: "\<exists>us. epmc_urls_of ?epmc = Some us
             \<and> first_pdf us [(''Europe PMC PDF'', JStr ''e.pdf'')]"
    by (rule exI [of _ "[?u1, ?u2, ?u3]"]) (rule conjI [OF us pdf])
  have l: "\<exists>lics. licenses_of ?cr = Some lics
             \<and> first_cc lics [(''License'', JStr ''creativecommons.org/by'')]"
    by (rule exI [of _ "[?c1, ?c2, ?c3]"]) (rule conjI [OF lics cc])
  have "dict_get ?r ''pmc_id'' JNull = Some (JStr ''77'')
        \<and> dict_get ?ss ''openAccessPdf'' (JObj []) = Some (JObj [(''url'', JStr ''s.pdf'')])
        \<and> dict_get ?oa ''open_access'' (JObj [])
            = Some (JObj [(''oa_url'', JStr ''o.pdf''), (''oa_status'', JStr ''gold'')])
        \<and> dict_get ?epmc ''isOpenAccess'' JNull = Some (JStr ''Y'')
        \<and> [(''PubMed Central'', JStr ''https://www.ncbi.nlm.nih.gov/pmc/articles/PMC77/''),
            (''Semantic Scholar PDF'', JStr ''s.pdf''),
            (''OpenAlex (gold)'', JStr ''o.pdf''),
            (''Europe PMC PDF'', JStr ''e.pdf''),
            (''License'', JStr ''creativecommons.org/by'')]
          = (if truthy (JStr ''77'')
             then [(''PubMed Central'',
                    JStr (''https://www.ncbi.nlm.nih.gov/pmc/articles/PMC''
                          @ py_str E0 (JStr ''77'') @ ''/''))]
             else [])
            @ [(''Semantic Scholar PDF'', JStr ''s.pdf'')] @ [(''OpenAlex (gold)'', JStr ''o.pdf'')]
            @ [(''Europe PMC PDF'', JStr ''e.pdf'')] @ [(''License'', JStr ''creativecommons.org/by'')]
        \<and> (if is_dict (JObj [(''url'', JStr ''s.pdf'')])
            then \<exists>url. dict_get (JObj [(''url'', JStr ''s.pdf'')]) ''url'' JNull = Some url
                   \<and> [(''Semantic Scholar PDF'', JStr ''s.pdf'')]
                       = (if truthy url then [(''Semantic Scholar PDF'', url)] else [])
            else [(''Semantic Scholar PDF'', JStr ''s.pdf'')] = [])
        \<and> (if is_dict (JObj [(''oa_url'', JStr ''o.pdf''), (''oa_status'', JStr ''gold'')])
            then \<exists>url status.
                   dict_get (JObj [(''oa_url'', JStr ''o.pdf''), (''oa_status'', JStr ''gold'')])
                     ''oa_url'' JNull = Some url
                   \<and> dict_get (JObj [(''oa_url'', JStr ''o.pdf''), (''oa_status'', JStr ''gold'')])
                       ''oa_status'' (JStr ''open'') = Some status
                   \<and> [(''OpenAlex (gold)'', JStr ''o.pdf'')]
                       = (if truthy url then [(''OpenAlex ('' @ py_str E0 status @ '')'', url)]
                          else [])
            else [(''OpenAlex (gold)'', JStr ''o.pdf'')] = [])
        \<and> (if JStr ''Y'' = JStr ''Y''
            then \<exists>us. epmc_urls_of ?epmc = Some us
                   \<and> first_pdf us [(''Europe PMC PDF'', JStr ''e.pdf'')]
            else [(''Europe PMC PDF'', JStr ''e.pdf'')] = [])
        \<and> (\<exists>lics. licenses_of ?cr = Some lics
               \<and> first_cc lics [(''License'', JStr ''creativecommons.org/by'')])"
    apply (intro conjI)
    subgoal by simp
    subgoal by simp
    subgoal by simp
    subgoal by simp
    subgoal by simp
    subgoal by simp
    subgoal by simp
    subgoal by (subst if_P; (rule refl | rule e))
    subgoal by (rule l)
    done
  then show "extract_oa_links E0 ?cr ?oa ?ss ?epmc ?r
    = Some [(''PubMed Central'', JStr ''https://www.ncbi.nlm.nih.gov/pmc/articles/PMC77/''),
            (''Semantic Scholar PDF'', JStr ''s.pdf''),
            (''OpenAlex (gold)'', JStr ''o.pdf''),
            (''Europe PMC PDF'', JStr ''e.pdf''),
            (''License'', JStr ''creativecommons.org/by'')]"
    unfolding extract_oa_links_fixed_order [THEN conjunct1] by blast
next
  let ?oa = "JObj [(''open_access'',
                     JObj [(''oa_url'', JStr ''o.pdf''), (''oa_status'', JStr ''gold'')])]"
  let ?ss = "JObj [(''openAccessPdf'', JObj [(''url'', JStr ''s.pdf'')])]"
  let ?L = "[''# 10.1/x'', [], ''**DOI:** [10.1/x](https://doi.org/10.1/x)'',
             ''**PMC:** [PMC77](https://www.ncbi.nlm.nih.gov/pmc/articles/PMC77/)'',
             [], ''---'', [], ''## Citation Counts'', [],
             ''| Source | Citations | Notes |'', ''|--------|-----------|-------|'',
             [], ''## Open Access'', [],
             ''- [PubMed Central](https://www.ncbi.nlm.nih.gov/pmc/articles/PMC77/)'',
             ''- [Semantic Scholar PDF](s.pdf)'', ''- [OpenAlex (gold)](o.pdf)'', [],
             ''---'', ''*Generated by Lazy Scholar CLI on 2026-01-01*'']"
  have d: "distinct (map fst [(''openalex'', ?oa), (''semantic_scholar'', ?ss)])
      \<and> distinct (map fst [(''semantic_scholar'', ?ss), (''openalex'', ?oa)])
      \<and> set [(''openalex'', ?oa), (''semantic_scholar'', ?ss)]
        = set [(''semantic_scholar'', ?ss), (''openalex'', ?oa)]"
    by (simp add: insert_commute)
  have eq: "md_lines E0 (JObj [(''doi'', JStr ''10.1/x''),
                (''sources'', JObj [(''openalex'', ?oa), (''semantic_scholar'', ?ss)]),
                (''pmc_id'', JStr ''77'')])
     = md_lines E0 (JObj [(''doi'', JStr ''10.1/x''),
                (''sources'', JObj [(''semantic_scholar'', ?ss), (''openalex'', ?oa)]),
                (''pmc_id'', JStr ''77'')])"
    using extract_oa_links_fixed_order [where pre = "[(''doi'', JStr ''10.1/x'')]"
        and rest = "[(''pmc_id'', JStr ''77'')]" and E = E0,
        THEN conjunct2, rule_format, OF d, THEN conjunct2]
    by simp
  have ev: "md_lines E0 (JObj [(''doi'', JStr ''10.1/x''),
                (''sources'', JObj [(''semantic_scholar'', ?ss), (''openalex'', ?oa)]),
                (''pmc_id'', JStr ''77'')]) = Some ?L"
    by code_simp
  show "md_lines E0 (JObj [(''doi'', JStr ''10.1/x''),
                (''sources'', JObj [(''openalex'', ?oa), (''semantic_scholar'', ?ss)]),
                (''pmc_id'', JStr ''77'')]) = Some ?L"
    using eq ev by (rule trans)
qed

subsection \<open>Identifier extraction\<close>

lemma endswith_rev: "endswith s x = (take (length x) (rev s) = rev x)"
proof (cases "length x \<le> length s")
  case True
  then show ?thesis by (auto simp: endswith_def take_rev)
next
  case False
  then have "length (take (length x) (rev s)) \<noteq> length (rev x)" by simp
  then have "take (length x) (rev s) \<noteq> rev x" by metis
  with False show ?thesis by (simp add: endswith_def)
qed

lemma lower_append: "lower (a @ b) = lower a @ lower b"
  by (simp add: lower_def)

lemma length_lower: "length (lower s) = length s"
  by (simp add: lower_def)

lemma strip_ext_hit:
  assumes "lower e = x"
  shows "strip_ext (b @ e) x = b"
proof -
  have "length e = length x" using assms length_lower [of e] by simp
  moreover have "endswith (lower (b @ e)) x"
    using assms by (simp add: endswith_def lower_append length_lower)
  ultimately show ?thesis by (simp add: strip_ext_def)
qed

lemma strip_ext_miss: "\<not> endswith (lower s) x \<Longrightarrow> strip_ext s x = s"
  by (simp add: strip_ext_def)

lemma other_ext:
  assumes "lower e = x" "x \<in> set extensions" "y \<in> set extensions" "x \<noteq> y"
  shows "\<not> endswith (lower (b @ e)) y"
  using assms by (auto simp: endswith_rev lower_append extensions_def)

lemma foldl_strip_ext_miss:
  "\<forall>y\<in>set ys. \<not> endswith (lower s) y \<Longrightarrow> foldl strip_ext s ys = s"
  by (induction ys) (simp_all add: strip_ext_miss)

text \<open>
  C5, as the code has it. The match is stripped of trailing \<^verbatim>\<open>.,;:\<close>, and then each known
  extension is tested once, in the order .pdf, .html, .full, .xml, against what is left
  at that moment. When the stripped match is \<open>b @ e\<close> with \<open>e\<close> a known extension up to
  letter case, and \<open>b\<close> ends in none of the extensions listed after \<open>e\<close>, exactly \<open>e\<close> is
  removed and the result is \<open>b\<close>.
\<close>

theorem extract_doi_one_extension:
  assumes "doi_search t = Some m"
    and "rstrip ''.,;:'' m = b @ e"
    and "extensions = pre @ x # suf"
    and "lower e = x"
    and "\<forall>y\<in>set suf. \<not> endswith (lower b) y"
  shows "extract_doi t = Some b"
proof -
  have x: "x \<in> set extensions" unfolding assms(3) by simp
  have "distinct extensions" by (simp add: extensions_def)
  then have "distinct (pre @ x # suf)" unfolding assms(3) .
  then have "\<forall>y\<in>set pre. x \<noteq> y" by auto
  moreover have "\<forall>y\<in>set pre. y \<in> set extensions" unfolding assms(3) by simp
  ultimately have "\<forall>y\<in>set pre. y \<in> set extensions \<and> x \<noteq> y" by blast
  then have "\<forall>y\<in>set pre. \<not> endswith (lower (b @ e)) y"
    using other_ext [OF assms(4) x] by blast
  then have "foldl strip_ext (b @ e) pre = b @ e"
    by (rule foldl_strip_ext_miss)
  then have "foldl strip_ext (b @ e) extensions = foldl strip_ext (strip_ext (b @ e) x) suf"
    unfolding assms(3) by simp
  also have "\<dots> = foldl strip_ext b suf"
    using strip_ext_hit [OF assms(4)] by simp
  also have "\<dots> = b"
    using assms(5) by (rule foldl_strip_ext_miss)
  finally show ?thesis
    using assms(1,2) by (simp add: extract_doi_def)
qed

theorem extract_doi_one_extension_witness:
  "extract_doi ''10.1234/abc.pdf'' = Some ''10.1234/abc''"
proof -
  have 1: "doi_search ''10.1234/abc.pdf'' = Some ''10.1234/abc.pdf''"
    by code_simp
  have 2: "rstrip ''.,;:'' ''10.1234/abc.pdf'' = ''10.1234/abc'' @ ''.pdf''"
    by code_simp
  have 3: "extensions = [] @ ''.pdf'' # [''.html'', ''.full'', ''.xml'']"
    by code_simp
  have 4: "lower ''.pdf'' = ''.pdf''"
    by code_simp
  have 5: "\<forall>y\<in>set [''.html'', ''.full'', ''.xml'']. \<not> endswith (lower ''10.1234/abc'') y"
    by code_simp
  show ?thesis by (rule extract_doi_one_extension [OF 1 2 3 4 5])
qed

text \<open>
  The claim as written fails: the loop has no \<^verbatim>\<open>break\<close>, so an extension listed later is
  removed after an earlier one, as in the \<^verbatim>\<open>.full.pdf\<close> of a preprint server's URL.
\<close>

theorem extract_doi_two_extensions_counterexample:
  "extract_doi ''10.1234/abc.full.pdf'' = Some ''10.1234/abc''
   \<and> extract_doi ''10.1234/abc.full.pdf'' \<noteq> Some ''10.1234/abc.full''"
  by code_simp

text \<open>The shape of a match: 10. digits / run.\<close>

lemma doi_try_Some:
  assumes "doi_try r n = Some m"
  shows "\<exists>ds cs. r = ds @ CHR ''/'' # cs \<and> length ds = n \<and> list_all is_digit ds \<and>
     takeWhile doi_char cs \<noteq> [] \<and> m = ''10.'' @ ds @ ''/'' @ takeWhile doi_char cs"
proof -
  from assms have a: "length (take n r) = n" "list_all is_digit (take n r)"
    by (auto simp: doi_try_def Let_def split: if_splits)
  with assms obtain c cs where d: "drop n r = c # cs"
    by (auto simp: doi_try_def Let_def split: if_splits list.splits)
  with assms a have c: "c = CHR ''/''" "takeWhile doi_char cs \<noteq> []"
    "m = ''10.'' @ take n r @ ''/'' @ takeWhile doi_char cs"
    by (auto simp: doi_try_def Let_def split: if_splits)
  have "r = take n r @ drop n r" by simp
  with d c have "r = take n r @ CHR ''/'' # cs" by simp
  with a c show ?thesis by blast
qed

lemma first_some_Some:
  "first_some f xs = Some y \<Longrightarrow> \<exists>x\<in>set xs. f x = Some y"
  by (induction xs) (auto split: option.splits)

lemma doi_match_Some:
  assumes "doi_match s = Some m"
  shows "\<exists>ds cs. s = ''10.'' @ ds @ CHR ''/'' # cs \<and> 4 \<le> length ds \<and> length ds \<le> 9 \<and>
     list_all is_digit ds \<and> takeWhile doi_char cs \<noteq> [] \<and>
     m = ''10.'' @ ds @ ''/'' @ takeWhile doi_char cs"
proof -
  from assms have t: "take 3 s = ''10.''"
    and f: "first_some (doi_try (drop 3 s)) [9, 8, 7, 6, 5, 4] = Some m"
    by (auto simp: doi_match_def split: if_splits)
  from first_some_Some [OF f] obtain n where n: "n \<in> set [9, 8, 7, 6, 5, 4::nat]"
    and "doi_try (drop 3 s) n = Some m" by blast
  from doi_try_Some [OF this(2)] obtain ds cs where
    d: "drop 3 s = ds @ CHR ''/'' # cs" "length ds = n" "list_all is_digit ds"
      "takeWhile doi_char cs \<noteq> []" "m = ''10.'' @ ds @ ''/'' @ takeWhile doi_char cs"
    by blast
  have "s = take 3 s @ drop 3 s" by simp
  with t d(1) have "s = ''10.'' @ ds @ CHR ''/'' # cs" by simp
  moreover from n d(2) have "4 \<le> length ds \<and> length ds \<le> 9" by auto
  ultimately show ?thesis using d by blast
qed

lemma doi_search_Some:
  assumes "doi_search t = Some m"
  shows "\<exists>ds run. m = ''10.'' @ ds @ ''/'' @ run \<and> 4 \<le> length ds \<and> length ds \<le> 9 \<and>
     list_all is_digit ds \<and> run \<noteq> [] \<and> list_all doi_char run"
  using assms
proof (induction t)
  case Nil
  then show ?case by simp
next
  case (Cons c cs)
  show ?case
  proof (cases "doi_match (c # cs)")
    case None
    with Cons show ?thesis by simp
  next
    case (Some m')
    with Cons.prems have "m' = m" by simp
    with Some doi_match_Some [of "c # cs" m] obtain ds xs where
      "4 \<le> length ds" "length ds \<le> 9" "list_all is_digit ds" "takeWhile doi_char xs \<noteq> []"
      "m = ''10.'' @ ds @ ''/'' @ takeWhile doi_char xs" by blast
    moreover have "list_all doi_char (takeWhile doi_char xs)"
      by (simp add: list_all_iff) (meson set_takeWhileD)
    ultimately show ?thesis by blast
  qed
qed


lemma slash_not_digit: "\<not> is_digit CHR ''/''"
  by (simp add: is_digit_def)

lemma doi_try_None:
  "\<not> (length (take n r) = n \<and> list_all is_digit (take n r)) \<Longrightarrow> doi_try r n = None"
  by (auto simp: doi_try_def Let_def)

lemma doi_try_longer:
  assumes "length ds < n"
  shows "doi_try (ds @ CHR ''/'' # run) n = None"
proof (rule doi_try_None, rule notI)
  let ?r = "ds @ CHR ''/'' # run"
  assume a: "length (take n ?r) = n \<and> list_all is_digit (take n ?r)"
  from assms have "take n ?r ! length ds = ?r ! length ds" by (rule nth_take)
  moreover have "?r ! length ds = CHR ''/''" by simp
  ultimately have "take n ?r ! length ds = CHR ''/''" by (rule trans)
  moreover from a assms have "length ds < length (take n ?r)" by simp
  ultimately have "CHR ''/'' \<in> set (take n ?r)" by (metis nth_mem)
  with a show False using slash_not_digit by (auto simp: list_all_iff)
qed

lemma doi_try_exact:
  assumes "list_all is_digit ds" "run \<noteq> []" "list_all doi_char run"
  shows "doi_try (ds @ CHR ''/'' # run) (length ds) = Some (''10.'' @ ds @ ''/'' @ run)"
proof -
  have tw: "takeWhile doi_char run = run"
    using assms(3) by (simp add: list_all_iff)
  have "doi_try (ds @ CHR ''/'' # run) (length ds)
      = (if takeWhile doi_char run \<noteq> [] then Some (''10.'' @ ds @ ''/'' @ takeWhile doi_char run)
         else None)"
    using assms(1) by (simp add: doi_try_def Let_def)
  then show ?thesis unfolding tw using assms(2) by simp
qed

lemma doi_match_self:
  assumes "4 \<le> length ds" "length ds \<le> 9" "list_all is_digit ds" "run \<noteq> []"
    "list_all doi_char run"
  shows "doi_match (''10.'' @ ds @ ''/'' @ run) = Some (''10.'' @ ds @ ''/'' @ run)"
proof -
  let ?r = "ds @ CHR ''/'' # run"
  note e = doi_try_exact [OF assms(3,4,5)]
  from assms(1,2) have "length ds = 4 \<or> length ds = 5 \<or> length ds = 6 \<or> length ds = 7
    \<or> length ds = 8 \<or> length ds = 9" by arith
  then have "first_some (doi_try ?r) [9, 8, 7, 6, 5, 4] = Some (''10.'' @ ds @ ''/'' @ run)"
  proof (elim disjE)
    assume l: "length ds = 4"
    then have "doi_try ?r 9 = None" "doi_try ?r 8 = None" "doi_try ?r 7 = None"
      "doi_try ?r 6 = None" "doi_try ?r 5 = None"
      by (simp_all add: doi_try_longer)
    with e l show ?thesis by simp
  next
    assume l: "length ds = 5"
    then have "doi_try ?r 9 = None" "doi_try ?r 8 = None" "doi_try ?r 7 = None"
      "doi_try ?r 6 = None"
      by (simp_all add: doi_try_longer)
    with e l show ?thesis by simp
  next
    assume l: "length ds = 6"
    then have "doi_try ?r 9 = None" "doi_try ?r 8 = None" "doi_try ?r 7 = None"
      by (simp_all add: doi_try_longer)
    with e l show ?thesis by simp
  next
    assume l: "length ds = 7"
    then have "doi_try ?r 9 = None" "doi_try ?r 8 = None"
      by (simp_all add: doi_try_longer)
    with e l show ?thesis by simp
  next
    assume l: "length ds = 8"
    then have "doi_try ?r 9 = None"
      by (simp_all add: doi_try_longer)
    with e l show ?thesis by simp
  next
    assume l: "length ds = 9"
    with e show ?thesis by simp
  qed
  then show ?thesis by (simp add: doi_match_def)
qed

lemma doi_search_self:
  assumes "4 \<le> length ds" "length ds \<le> 9" "list_all is_digit ds" "run \<noteq> []"
    "list_all doi_char run"
  shows "doi_search (''10.'' @ ds @ ''/'' @ run) = Some (''10.'' @ ds @ ''/'' @ run)"
proof -
  have "doi_search (CHR ''1'' # ''0.'' @ ds @ ''/'' @ run)
      = (case doi_match (CHR ''1'' # ''0.'' @ ds @ ''/'' @ run) of
           Some m \<Rightarrow> Some m | None \<Rightarrow> doi_search (''0.'' @ ds @ ''/'' @ run))"
    by (rule doi_search.simps)
  with doi_match_self [OF assms] show ?thesis by simp
qed

lemma rstrip_take: "\<exists>k. rstrip cs s = take k s"
proof -
  have "rstrip cs s = rev (drop (length (takeWhile (\<lambda>c. c \<in> set cs) (rev s))) (rev s))"
    by (simp add: rstrip_def dropWhile_eq_drop)
  also have "\<dots> = take (length s - length (takeWhile (\<lambda>c. c \<in> set cs) (rev s))) s"
    by (simp add: rev_drop)
  finally show ?thesis by blast
qed

lemma strip_ext_take: "\<exists>k. strip_ext s x = take k s"
proof (cases "endswith (lower s) x")
  case True
  then show ?thesis by (auto simp: strip_ext_def)
next
  case False
  then have "strip_ext s x = take (length s) s" by (simp add: strip_ext_def)
  then show ?thesis by blast
qed

lemma foldl_strip_ext_take: "\<exists>k. foldl strip_ext s xs = take k s"
proof (induction xs arbitrary: s)
  case Nil
  have "foldl strip_ext s [] = take (length s) s" by simp
  then show ?case by blast
next
  case (Cons x xs)
  obtain k where k: "strip_ext s x = take k s" using strip_ext_take by blast
  obtain j where "foldl strip_ext (strip_ext s x) xs = take j (strip_ext s x)"
    using Cons.IH by blast
  with k have "foldl strip_ext s (x # xs) = take (min j k) s" by simp
  then show ?case by blast
qed

lemma extract_doi_take:
  assumes "extract_doi t = Some d"
  shows "\<exists>m k. doi_search t = Some m \<and> d = take k m"
proof -
  from assms obtain m where m: "doi_search t = Some m"
    and d: "d = foldl strip_ext (rstrip ''.,;:'' m) extensions"
    by (auto simp: extract_doi_def split: option.splits)
  obtain k where "rstrip ''.,;:'' m = take k m" using rstrip_take by blast
  moreover obtain j where "foldl strip_ext (rstrip ''.,;:'' m) extensions
      = take j (rstrip ''.,;:'' m)" using foldl_strip_ext_take by blast
  ultimately have "d = take (min j k) m" using d by simp
  with m show ?thesis by blast
qed


lemma no_slash_prefix:
  assumes "list_all is_digit ds"
  shows "\<forall>c\<in>set (''10.'' @ ds). c \<noteq> CHR ''/''"
  using assms slash_not_digit by (auto simp: list_all_iff)

lemma take_keeps_run:
  assumes p: "\<forall>c\<in>set p. c \<noteq> CHR ''/''"
    and run: "run \<noteq> []"
    and d: "d = take k (p @ CHR ''/'' # run)"
    and after: "tl (dropWhile (\<lambda>c. c \<noteq> CHR ''/'') d) \<noteq> []"
  shows "\<exists>j. d = p @ CHR ''/'' # take j run \<and> take j run \<noteq> []"
proof -
  consider "k \<le> length p" | "k = Suc (length p)" | "Suc (Suc (length p)) \<le> k" by arith
  then show ?thesis
  proof cases
    case 1
    then have "d = take k p" using d by simp
    then have "\<forall>c\<in>set d. c \<noteq> CHR ''/''" using p by (auto dest: in_set_takeD)
    then have "dropWhile (\<lambda>c. c \<noteq> CHR ''/'') d = []" by simp
    with after show ?thesis by simp
  next
    case 2
    then have "d = p @ [CHR ''/'']" using d by simp
    then have "dropWhile (\<lambda>c. c \<noteq> CHR ''/'') d = [CHR ''/'']"
      using p by (simp add: dropWhile_append)
    with after show ?thesis by simp
  next
    case 3
    then obtain j where j: "k = Suc (Suc (length p)) + j" using le_Suc_ex by blast
    then have "d = p @ CHR ''/'' # take (Suc j) run" using d by simp
    moreover have "take (Suc j) run \<noteq> []" using run by (cases run) auto
    ultimately show ?thesis by blast
  qed
qed

text \<open>
  C2, as the code has it. When extraction succeeds with the identifier \<open>d\<close>, and \<open>d\<close> has
  a character after its first slash, ends in none of \<^verbatim>\<open>.,;:\<close> and ends, up to letter case,
  in none of the four extensions, extraction from \<open>d\<close> returns \<open>d\<close>.
\<close>

theorem extract_doi_idempotent:
  assumes "extract_doi t = Some d"
    and "tl (dropWhile (\<lambda>c. c \<noteq> CHR ''/'') d) \<noteq> []"
    and "rstrip ''.,;:'' d = d"
    and "\<forall>x\<in>set extensions. \<not> endswith (lower d) x"
  shows "extract_doi d = Some d"
proof -
  from extract_doi_take [OF assms(1)] obtain m k where
    m: "doi_search t = Some m" and d: "d = take k m" by blast
  from doi_search_Some [OF m] obtain ds run where
    s: "m = ''10.'' @ ds @ ''/'' @ run" "4 \<le> length ds" "length ds \<le> 9"
      "list_all is_digit ds" "run \<noteq> []" "list_all doi_char run" by blast
  from d s(1) have "d = take k ((''10.'' @ ds) @ CHR ''/'' # run)" by simp
  from take_keeps_run [OF no_slash_prefix [OF s(4)] s(5) this assms(2)]
  obtain j where j: "d = (''10.'' @ ds) @ CHR ''/'' # take j run" "take j run \<noteq> []"
    by blast
  have "list_all doi_char (take j run)"
    using s(6) by (auto simp: list_all_iff dest: in_set_takeD)
  from doi_search_self [OF s(2,3,4) j(2) this] j(1)
  have "doi_search d = Some d" by simp
  then have "extract_doi d = Some (foldl strip_ext d extensions)"
    using assms(3) by (simp add: extract_doi_def)
  also have "foldl strip_ext d extensions = d"
    using assms(4) by (rule foldl_strip_ext_miss)
  finally show ?thesis .
qed

theorem extract_doi_idempotent_witness:
  "extract_doi ''doi:10.1234/abc.pdf.'' = Some ''10.1234/abc''
   \<and> extract_doi ''10.1234/abc'' = Some ''10.1234/abc''"
proof -
  have 1: "extract_doi ''doi:10.1234/abc.pdf.'' = Some ''10.1234/abc''"
    by code_simp
  have 2: "tl (dropWhile (\<lambda>c. c \<noteq> CHR ''/'') ''10.1234/abc'') \<noteq> []"
    by code_simp
  have 3: "rstrip ''.,;:'' ''10.1234/abc'' = ''10.1234/abc''"
    by code_simp
  have 4: "\<forall>x\<in>set extensions. \<not> endswith (lower ''10.1234/abc'') x"
    by code_simp
  from 1 extract_doi_idempotent [OF 1 2 3 4] show ?thesis by (rule conjI)
qed

text \<open>
  The claim as written fails in three ways: the extracted identifier can still end in an
  extension listed before the one removed, or in punctuation uncovered by the removal
  of an extension, and it can be left with nothing after the slash, where a second
  extraction finds no match.
\<close>

theorem extract_doi_not_idempotent_counterexample:
  "extract_doi ''10.1234/abc.pdf.html'' = Some ''10.1234/abc.pdf''
   \<and> extract_doi ''10.1234/abc.pdf'' = Some ''10.1234/abc''
   \<and> extract_doi ''10.1234/a..pdf'' = Some ''10.1234/a.''
   \<and> extract_doi ''10.1234/a.'' = Some ''10.1234/a''
   \<and> extract_doi ''10.1234/.pdf'' = Some ''10.1234/''
   \<and> extract_doi ''10.1234/'' = None"
  by code_simp

subsection \<open>The rate-limit gate\<close>

lemmas gate_defs = check_rate_limit_def load_ledger_def MIN_INTERVAL_SECONDS_def
  MAX_REQUESTS_PER_HOUR_def window_def

text \<open>
  C3, as the code has it. With the ledger pruned to the one-hour window: at or above
  the hourly ceiling the gate exits with status 1, after the quota message alone when
  the most recent timestamp is at least the minimum interval old, and after the wait
  message, the sleep of the remaining time and the quota message when it is younger;
  below the ceiling, with the most recent timestamp younger than the minimum interval,
  the gate prints the wait, sleeps exactly the remaining time and proceeds.
\<close>

theorem check_rate_limit_gate:
  assumes "load_ledger f = Some loaded"
    and "timestamps = filter (\<lambda>ts. now - ts < window) loaded"
    and "elapsed = now - Max (set timestamps)"
  shows "(length timestamps \<ge> MAX_REQUESTS_PER_HOUR \<longrightarrow>
            snd (check_rate_limit now f) = Exits 1
          \<and> (MIN_INTERVAL_SECONDS \<le> elapsed \<longrightarrow>
               fst (check_rate_limit now f)
               = [Print_quota (window - (now - Min (set timestamps)))])
          \<and> (elapsed < MIN_INTERVAL_SECONDS \<longrightarrow>
               fst (check_rate_limit now f)
               = [Print_wait (MIN_INTERVAL_SECONDS - elapsed),
                  Sleep (MIN_INTERVAL_SECONDS - elapsed),
                  Print_quota (window - (now - Min (set timestamps)))]))
       \<and> (timestamps \<noteq> [] \<and> length timestamps < MAX_REQUESTS_PER_HOUR
            \<and> elapsed < MIN_INTERVAL_SECONDS \<longrightarrow>
            check_rate_limit now f
            = ([Print_wait (MIN_INTERVAL_SECONDS - elapsed),
                Sleep (MIN_INTERVAL_SECONDS - elapsed)], Proceeds))"
  using assms by (auto simp: check_rate_limit_def Let_def MAX_REQUESTS_PER_HOUR_def)

theorem check_rate_limit_gate_witness:
  "check_rate_limit 1000 (Contents (JList [JInt 998])) = ([Print_wait 3, Sleep 3], Proceeds)
   \<and> snd (check_rate_limit 1000 (Contents (JList [JInt 1, JInt 2, JInt 3, JInt 4, JInt 5,
       JInt 6, JInt 7, JInt 8, JInt 9, JInt 10]))) = Exits 1
   \<and> fst (check_rate_limit 1000 (Contents (JList [JInt 1, JInt 2, JInt 3, JInt 4, JInt 5,
       JInt 6, JInt 7, JInt 8, JInt 9, JInt 10]))) = [Print_quota 2601]"
proof -
  have a: "load_ledger (Contents (JList [JInt 998])) = Some [998]"
    by (simp add: load_ledger_def)
  have b: "[998] = filter (\<lambda>ts. 1000 - ts < window) [998::real]"
    by (simp add: window_def)
  have c: "(2::real) = 1000 - Max (set [998])" by simp
  note t1 = check_rate_limit_gate [OF a b c, THEN conjunct2, rule_format]
  have 1: "check_rate_limit 1000 (Contents (JList [JInt 998])) = ([Print_wait 3, Sleep 3], Proceeds)"
    using t1 by (simp add: MIN_INTERVAL_SECONDS_def MAX_REQUESTS_PER_HOUR_def)
  have a': "load_ledger (Contents (JList [JInt 1, JInt 2, JInt 3, JInt 4, JInt 5,
       JInt 6, JInt 7, JInt 8, JInt 9, JInt 10])) = Some [1, 2, 3, 4, 5, 6, 7, 8, 9, 10]"
    by (simp add: load_ledger_def)
  have b': "[1, 2, 3, 4, 5, 6, 7, 8, 9, 10]
      = filter (\<lambda>ts. 1000 - ts < window) [1, 2, 3, 4, 5, 6, 7, 8, 9, 10::real]"
    by (simp add: window_def)
  have c': "(990::real) = 1000 - Max (set [1, 2, 3, 4, 5, 6, 7, 8, 9, 10])" by simp
  note t2 = check_rate_limit_gate [OF a' b' c', THEN conjunct1, rule_format]
  have 2: "snd (check_rate_limit 1000 (Contents (JList [JInt 1, JInt 2, JInt 3, JInt 4, JInt 5,
       JInt 6, JInt 7, JInt 8, JInt 9, JInt 10]))) = Exits 1
   \<and> fst (check_rate_limit 1000 (Contents (JList [JInt 1, JInt 2, JInt 3, JInt 4, JInt 5,
       JInt 6, JInt 7, JInt 8, JInt 9, JInt 10]))) = [Print_quota 2601]"
    using t2 by (simp add: MIN_INTERVAL_SECONDS_def MAX_REQUESTS_PER_HOUR_def window_def)
  from 1 2 show ?thesis by (rule conjI)
qed


text \<open>
  The claim as written fails: with ten timestamps two seconds old the gate first sleeps
  the three remaining seconds, and then exits with the quota error.
\<close>

theorem check_rate_limit_sleeps_then_exits_counterexample:
  "check_rate_limit 1000 (Contents (JList [JInt 998, JInt 998, JInt 998, JInt 998, JInt 998,
       JInt 998, JInt 998, JInt 998, JInt 998, JInt 998]))
   = ([Print_wait 3, Sleep 3, Print_quota 3598], Exits 1)"
  by (simp add: gate_defs)

subsection \<open>The transport wrapper\<close>

lemma attempts_skip:
  assumes "k \<le> retries" and "j \<le> k" and "\<forall>i. j \<le> i \<and> i < k \<longrightarrow> retried (net i)"
  shows "attempts net retries [j..<Suc retries]
       = (concat (map (\<lambda>i. [Request i, pause (net i)]) [j..<k])
            @ fst (attempts net retries [k..<Suc retries]),
          snd (attempts net retries [k..<Suc retries]))"
  using assms(2,3)
proof (induction "k - j" arbitrary: j)
  case 0
  then have "j = k" by simp
  then show ?case by simp
next
  case (Suc n)
  then have lt: "j < k" and n: "n = k - Suc j" and le: "Suc j \<le> k" by simp_all
  with assms(1) have jr: "j < retries" by simp
  from Suc.prems(2) lt have r: "retried (net j)" by simp
  have ih: "attempts net retries [Suc j..<Suc retries]
       = (concat (map (\<lambda>i. [Request i, pause (net i)]) [Suc j..<k])
            @ fst (attempts net retries [k..<Suc retries]),
          snd (attempts net retries [k..<Suc retries]))"
    using Suc.hyps(1) [OF n le] Suc.prems(2) by simp
  from jr lt have u: "[j..<Suc retries] = j # [Suc j..<Suc retries]"
    "[j..<k] = j # [Suc j..<k]"
    by (simp_all add: upt_conv_Cons)
  have step: "attempts net retries (j # [Suc j..<Suc retries])
      = (Request j # pause (net j) # fst (attempts net retries [Suc j..<Suc retries]),
         snd (attempts net retries [Suc j..<Suc retries]))"
  proof -
    from r consider "net j = Transport_error" | s where "resp_ok s" "net j = Response s None"
      | b where "net j = Response 429 b" by blast
    then show ?thesis
    proof cases
      case 1
      with jr have "try_body (net j) j retries = Caught" by (simp add: try_body_def)
      with 1 jr show ?thesis by (simp add: case_prod_beta del: upt_Suc)
    next
      case 2
      with jr have "try_body (net j) j retries = Caught" by (simp add: try_body_def)
      with 2 jr show ?thesis by (simp add: case_prod_beta del: upt_Suc)
    next
      case 3
      with jr have "try_body (net j) j retries = Continue"
        by (simp add: try_body_def resp_ok_def)
      with 3 jr show ?thesis by (simp add: case_prod_beta resp_ok_def del: upt_Suc)
    qed
  qed
  show ?case unfolding u step ih by simp
qed

lemma attempts_at:
  assumes "k \<le> retries"
  shows "attempts net retries [k..<Suc retries]
       = (case try_body (net k) k retries of
            Return v \<Rightarrow> ([Request k], Returns v)
          | Continue \<Rightarrow>
              (let (es, r) = attempts net retries [Suc k..<Suc retries]
               in (Request k # Sleep_uniform 3 8 # es, r))
          | Caught \<Rightarrow>
              (let (es, r) = attempts net retries [Suc k..<Suc retries]
               in (Request k # (if k < retries then [Sleep 2] else []) @ es, r))
          | Uncaught \<Rightarrow> ([Request k], Raised))"
proof -
  from assms have "[k..<Suc retries] = k # [Suc k..<Suc retries]"
    by (simp add: upt_conv_Cons)
  then show ?thesis by (simp del: upt_Suc)
qed

lemma attempts_returns:
  assumes "\<forall>i\<in>set as. net i \<noteq> Interrupt"
  shows "\<exists>v. snd (attempts net retries as) = Returns v"
  using assms
proof (induction as)
  case Nil
  show ?case by simp
next
  case (Cons a as)
  then obtain v where v: "snd (attempts net retries as) = Returns v" by auto
  from Cons.prems have "net a \<noteq> Interrupt" by simp
  then have "try_body (net a) a retries \<noteq> Uncaught"
    by (auto simp: try_body_def split: reply.splits option.splits)
  with v show ?case
    by (cases "try_body (net a) a retries") (auto split: prod.splits)
qed

text \<open>
  C4, as the code has it. \<^verbatim>\<open>_get\<close> and \<^verbatim>\<open>_post\<close> run the same loop. Unless an exception outside
  the \<^verbatim>\<open>Exception\<close> hierarchy interrupts a request, the wrapper returns a value: no
  response and no transport or parsing exception makes it raise. Let attempt \<open>k\<close> be
  within the budget and let every earlier attempt be retried (it raised a transport or
  parsing exception, or was answered 429); each of those earlier requests is followed
  by its pause, 2 seconds after an exception and a sleep drawn uniformly from 3 to 8
  seconds after a 429. Then: an ok response whose body parses is returned, after
  request \<open>k\<close>; a response that is not ok and not a 429 gives the no-data value at once,
  with no further request and no sleep, at whatever attempt it comes; when \<open>k\<close> is the
  last attempt of the budget and is itself a 429 or an exception, the no-data value is
  returned with no further sleep; and an interrupt leaves the wrapper as an exception.
\<close>

theorem get_retries:
  "((\<forall>i \<le> retries. net i \<noteq> Interrupt) \<longrightarrow> (\<exists>v. snd (get net retries) = Returns v))
   \<and> post net retries = get net retries
   \<and> (k \<le> retries \<and> (\<forall>i < k. retried (net i)) \<longrightarrow>
        (\<forall>s v. resp_ok s \<and> net k = Response s (Some v) \<longrightarrow>
           get net retries
           = (concat (map (\<lambda>i. [Request i, pause (net i)]) [0..<k]) @ [Request k], Returns v))
      \<and> (\<forall>s b. \<not> resp_ok s \<and> s \<noteq> 429 \<and> net k = Response s b \<longrightarrow>
           get net retries
           = (concat (map (\<lambda>i. [Request i, pause (net i)]) [0..<k]) @ [Request k],
              Returns JNull))
      \<and> (k = retries \<and> retried (net k) \<longrightarrow>
           get net retries
           = (concat (map (\<lambda>i. [Request i, pause (net i)]) [0..<k]) @ [Request k],
              Returns JNull))
      \<and> (net k = Interrupt \<longrightarrow>
           get net retries
           = (concat (map (\<lambda>i. [Request i, pause (net i)]) [0..<k]) @ [Request k], Raised)))"
proof (intro conjI impI allI)
  assume "\<forall>i \<le> retries. net i \<noteq> Interrupt"
  then have "\<forall>i\<in>set [0..<retries + 1]. net i \<noteq> Interrupt" by simp
  from attempts_returns [OF this]
  show "\<exists>v. snd (get net retries) = Returns v" by (simp add: get_def)
next
  show "post net retries = get net retries" by (simp add: get_def post_def)
next
  fix s v
  assume h: "k \<le> retries \<and> (\<forall>i < k. retried (net i))"
    and a: "resp_ok s \<and> net k = Response s (Some v)"
  from h have sk: "attempts net retries [0..<Suc retries]
       = (concat (map (\<lambda>i. [Request i, pause (net i)]) [0..<k])
            @ fst (attempts net retries [k..<Suc retries]),
          snd (attempts net retries [k..<Suc retries]))"
    by (intro attempts_skip) simp_all
  from a have "try_body (net k) k retries = Return v" by (simp add: try_body_def)
  with h have "attempts net retries [k..<Suc retries] = ([Request k], Returns v)"
    by (simp add: attempts_at del: upt_Suc)
  with sk show "get net retries
           = (concat (map (\<lambda>i. [Request i, pause (net i)]) [0..<k]) @ [Request k], Returns v)"
    by (simp add: get_def del: upt_Suc)
next
  fix s b
  assume h: "k \<le> retries \<and> (\<forall>i < k. retried (net i))"
    and a: "\<not> resp_ok s \<and> s \<noteq> 429 \<and> net k = Response s b"
  from h have sk: "attempts net retries [0..<Suc retries]
       = (concat (map (\<lambda>i. [Request i, pause (net i)]) [0..<k])
            @ fst (attempts net retries [k..<Suc retries]),
          snd (attempts net retries [k..<Suc retries]))"
    by (intro attempts_skip) simp_all
  from a have "try_body (net k) k retries = Return JNull" by (simp add: try_body_def)
  with h have "attempts net retries [k..<Suc retries] = ([Request k], Returns JNull)"
    by (simp add: attempts_at del: upt_Suc)
  with sk show "get net retries
           = (concat (map (\<lambda>i. [Request i, pause (net i)]) [0..<k]) @ [Request k],
              Returns JNull)"
    by (simp add: get_def del: upt_Suc)
next
  assume h: "k \<le> retries \<and> (\<forall>i < k. retried (net i))"
    and a: "k = retries \<and> retried (net k)"
  from h have sk: "attempts net retries [0..<Suc retries]
       = (concat (map (\<lambda>i. [Request i, pause (net i)]) [0..<k])
            @ fst (attempts net retries [k..<Suc retries]),
          snd (attempts net retries [k..<Suc retries]))"
    by (intro attempts_skip) simp_all
  from a have "try_body (net k) k retries = Caught \<or> try_body (net k) k retries = Return JNull"
    by (auto simp: try_body_def resp_ok_def)
  with a have "attempts net retries [k..<Suc retries] = ([Request k], Returns JNull)"
    by (auto simp: attempts_at simp del: upt_Suc)
  with sk show "get net retries
           = (concat (map (\<lambda>i. [Request i, pause (net i)]) [0..<k]) @ [Request k],
              Returns JNull)"
    by (simp add: get_def del: upt_Suc)
next
  assume h: "k \<le> retries \<and> (\<forall>i < k. retried (net i))"
    and a: "net k = Interrupt"
  from h have sk: "attempts net retries [0..<Suc retries]
       = (concat (map (\<lambda>i. [Request i, pause (net i)]) [0..<k])
            @ fst (attempts net retries [k..<Suc retries]),
          snd (attempts net retries [k..<Suc retries]))"
    by (intro attempts_skip) simp_all
  from a have "try_body (net k) k retries = Uncaught" by (simp add: try_body_def)
  with h have "attempts net retries [k..<Suc retries] = ([Request k], Raised)"
    by (simp add: attempts_at del: upt_Suc)
  with sk show "get net retries
           = (concat (map (\<lambda>i. [Request i, pause (net i)]) [0..<k]) @ [Request k], Raised)"
    by (simp add: get_def del: upt_Suc)
qed

text \<open>Three answers of 429; a 500 after a 429; three transport errors.\<close>

theorem get_retries_witness:
  "get (\<lambda>i. Response 429 None) 2
     = ([Request 0, Sleep_uniform 3 8, Request 1, Sleep_uniform 3 8, Request 2], Returns JNull)
   \<and> get (\<lambda>i. if i = 0 then Response 429 None else Response 500 None) 2
     = ([Request 0, Sleep_uniform 3 8, Request 1], Returns JNull)
   \<and> get (\<lambda>i. Transport_error) 2
     = ([Request 0, Sleep 2, Request 1, Sleep 2, Request 2], Returns JNull)
   \<and> post (\<lambda>i. Transport_error) 2 = get (\<lambda>i. Transport_error) 2"
proof -
  let ?a = "\<lambda>i::nat. Response 429 None"
  let ?b = "\<lambda>i::nat. if i = 0 then Response 429 None else Response 500 None"
  let ?c = "\<lambda>i::nat. Transport_error"
  have pa: "(2::nat) \<le> 2 \<and> (\<forall>i < 2. retried (?a i))" by simp
  have pb: "(1::nat) \<le> 2 \<and> (\<forall>i < 1. retried (?b i))" by simp
  have pc: "(2::nat) \<le> 2 \<and> (\<forall>i < 2. retried (?c i))" by simp
  note ta = get_retries [where net = ?a and retries = 2 and k = 2, THEN conjunct2, THEN conjunct2, THEN mp, OF pa,
      THEN conjunct2, THEN conjunct2, THEN conjunct1, THEN mp]
  note tb = get_retries [where net = ?b and retries = 2 and k = 1, THEN conjunct2, THEN conjunct2, THEN mp, OF pb,
      THEN conjunct2, THEN conjunct1, THEN spec, THEN spec, THEN mp, of 500 None]
  note tc = get_retries [where net = ?c and retries = 2 and k = 2, THEN conjunct2, THEN conjunct2, THEN mp, OF pc,
      THEN conjunct2, THEN conjunct2, THEN conjunct1, THEN mp]
  note td = get_retries [where net = ?c and retries = 2 and k = 0, THEN conjunct2, THEN conjunct1]
  have 1: "get ?a 2
     = ([Request 0, Sleep_uniform 3 8, Request 1, Sleep_uniform 3 8, Request 2], Returns JNull)"
    using ta by (simp add: upt_conv_Cons resp_ok_def)
  have 2: "get ?b 2 = ([Request 0, Sleep_uniform 3 8, Request 1], Returns JNull)"
    using tb by (simp add: upt_conv_Cons resp_ok_def)
  have 3: "get ?c 2 = ([Request 0, Sleep 2, Request 1, Sleep 2, Request 2], Returns JNull)"
    using tc by (simp add: upt_conv_Cons)
  from 1 2 3 td show ?thesis by simp
qed

text \<open>
  The claim as written fails: a 500 is not retried at all, and a transport exception is
  retried twice under the default budget, not once.
\<close>

theorem get_no_retry_on_500_counterexample:
  "get (\<lambda>i. Response 500 None) 2 = ([Request 0], Returns JNull)
   \<and> post (\<lambda>i. Response 500 None) 2 = ([Request 0], Returns JNull)
   \<and> get (\<lambda>i. Transport_error) 2
     = ([Request 0, Sleep 2, Request 1, Sleep 2, Request 2], Returns JNull)"
  by (simp add: get_def post_def try_body_def resp_ok_def upt_conv_Cons)

subsection \<open>Rendering\<close>

lemmas md_defs = md_lines_def source_def md_title_def cr_title_def md_authors_def
  extract_authors_def md_journal_def extract_journal_def md_date_def extract_date_def
  date_keys_def date_parts_def has_first_def md_type_def md_pubmed_def md_tldr_def
  md_abstract_def md_citations_def md_open_access_def extract_oa_links_def pmc_link_def
  ss_link_def oa_link_def epmc_link_def epmc_urls_of_def cr_link_def licenses_of_def
  md_notices_def extract_notices_def updates_of_def md_pubpeer_def md_hypothesis_def py_gt_def
  md_topics_def md_funding_def md_references_def md_recommendations_def

text \<open>
  C1 at a failing input. When no source answers, \<^verbatim>\<open>aggregate_paper_data\<close> builds the report
  that holds the identifier, an empty sources mapping and zero Hypothesis annotations.
  Its document has thirteen lines: between the separator and the footer stand the
  Citation Counts heading and the two lines of the head of a table with no row. The
  heading is appended with no guard, where every other section of \<^verbatim>\<open>to_markdown\<close> is
  appended under one. A report whose only source record is a Semantic Scholar record
  holding only a title renders the same lines under that title.
\<close>

theorem md_lines_empty_citation_table:
  "md_lines E0 (JObj [(''doi'', JStr ''10.1234/abc''), (''sources'', JObj []),
                      (''hypothesis_annotations'', JInt 0)])
     = Some [''# 10.1234/abc'', [], ''**DOI:** [10.1234/abc](https://doi.org/10.1234/abc)'',
             [], ''---'', [],
             ''## Citation Counts'', [], ''| Source | Citations | Notes |'',
             ''|--------|-----------|-------|'', [],
             ''---'', ''*Generated by Lazy Scholar CLI on 2026-01-01*'']
   \<and> to_markdown E0 (JObj [(''doi'', JStr ''10.1234/abc''), (''sources'', JObj []),
                            (''hypothesis_annotations'', JInt 0)])
     = Some (join [CHR 0x0A]
         [''# 10.1234/abc'', [], ''**DOI:** [10.1234/abc](https://doi.org/10.1234/abc)'',
          [], ''---'', [],
          ''## Citation Counts'', [], ''| Source | Citations | Notes |'',
          ''|--------|-----------|-------|'', [],
          ''---'', ''*Generated by Lazy Scholar CLI on 2026-01-01*''])
   \<and> md_lines E0 (JObj [(''doi'', JStr ''10.1234/abc''),
          (''sources'', JObj [(''semantic_scholar'', JObj [(''title'', JStr ''A Title'')])]),
          (''hypothesis_annotations'', JInt 0)])
     = Some [''# A Title'', [], ''**DOI:** [10.1234/abc](https://doi.org/10.1234/abc)'',
             [], ''---'', [],
             ''## Citation Counts'', [], ''| Source | Citations | Notes |'',
             ''|--------|-----------|-------|'', [],
             ''---'', ''*Generated by Lazy Scholar CLI on 2026-01-01*'']"
  by (simp add: md_defs to_markdown_def E0_def)

lemma md_lines_header:
  assumes "md_lines E report = Some ls"
  shows "\<exists>doi cr ss oa epmc title.
     dict_item report ''doi'' = Some doi \<and>
     source report ''crossref'' (JObj []) = Some cr \<and>
     source report ''semantic_scholar'' (JObj []) = Some ss \<and>
     source report ''openalex'' (JObj []) = Some oa \<and>
     source report ''europepmc'' (JObj []) = Some epmc \<and>
     md_title cr ss oa epmc doi = Some title \<and>
     hd ls = ''# '' @ py_str E title"
  using assms unfolding md_lines_def
  by (auto split: bind_splits)

text \<open>
  C7. CrossRef's title is the first element of its title list (or the value itself when
  it is not a list). The reconciled title is CrossRef's when that is non-empty, whatever
  Semantic Scholar and the other sources hold; else Semantic Scholar's when that is
  non-empty; else OpenAlex's when that is non-empty; else Europe PMC's when that is
  non-empty; else the identifier. The reconciled title is the text of the first line of
  every rendered document.
\<close>

theorem md_title_priority:
  "(cr_title cr = Some t \<and> truthy t \<longrightarrow> md_title cr ss oa epmc doi = Some t)
   \<and> (cr_title cr = Some t \<and> \<not> truthy t \<and> dict_get ss ''title'' JNull = Some s \<and> truthy s
        \<longrightarrow> md_title cr ss oa epmc doi = Some s)
   \<and> (cr_title cr = Some t \<and> \<not> truthy t
        \<and> dict_get ss ''title'' JNull = Some s \<and> \<not> truthy s
        \<and> dict_get oa ''title'' JNull = Some a \<and> truthy a
        \<longrightarrow> md_title cr ss oa epmc doi = Some a)
   \<and> (cr_title cr = Some t \<and> \<not> truthy t
        \<and> dict_get ss ''title'' JNull = Some s \<and> \<not> truthy s
        \<and> dict_get oa ''title'' JNull = Some a \<and> \<not> truthy a
        \<and> dict_get epmc ''title'' JNull = Some e \<and> truthy e
        \<longrightarrow> md_title cr ss oa epmc doi = Some e)
   \<and> (cr_title cr = Some t \<and> \<not> truthy t
        \<and> dict_get ss ''title'' JNull = Some s \<and> \<not> truthy s
        \<and> dict_get oa ''title'' JNull = Some a \<and> \<not> truthy a
        \<and> dict_get epmc ''title'' JNull = Some e \<and> \<not> truthy e
        \<longrightarrow> md_title cr ss oa epmc doi = Some doi)
   \<and> (md_lines E report = Some ls \<longrightarrow>
        (\<exists>doi' cr' ss' oa' epmc' title.
           dict_item report ''doi'' = Some doi' \<and>
           source report ''crossref'' (JObj []) = Some cr' \<and>
           source report ''semantic_scholar'' (JObj []) = Some ss' \<and>
           source report ''openalex'' (JObj []) = Some oa' \<and>
           source report ''europepmc'' (JObj []) = Some epmc' \<and>
           md_title cr' ss' oa' epmc' doi' = Some title \<and>
           hd ls = ''# '' @ py_str E title))"
  using md_lines_header [of E report ls] by (simp add: md_title_def)

text \<open>All four sources with a title; then CrossRef's removed, then Semantic Scholar's,
  then OpenAlex's, then Europe PMC's.\<close>

theorem md_title_priority_witness:
  "md_title (JObj [(''title'', JList [JStr ''From CrossRef''])])
            (JObj [(''title'', JStr ''From Semantic Scholar'')])
            (JObj [(''title'', JStr ''From OpenAlex'')])
            (JObj [(''title'', JStr ''From Europe PMC'')]) (JStr ''10.1234/abc'')
     = Some (JStr ''From CrossRef'')
   \<and> md_title (JObj []) (JObj [(''title'', JStr ''From Semantic Scholar'')])
            (JObj [(''title'', JStr ''From OpenAlex'')])
            (JObj [(''title'', JStr ''From Europe PMC'')]) (JStr ''10.1234/abc'')
     = Some (JStr ''From Semantic Scholar'')
   \<and> md_title (JObj []) (JObj [])
            (JObj [(''title'', JStr ''From OpenAlex'')])
            (JObj [(''title'', JStr ''From Europe PMC'')]) (JStr ''10.1234/abc'')
     = Some (JStr ''From OpenAlex'')
   \<and> md_title (JObj []) (JObj []) (JObj [])
            (JObj [(''title'', JStr ''From Europe PMC'')]) (JStr ''10.1234/abc'')
     = Some (JStr ''From Europe PMC'')
   \<and> md_title (JObj []) (JObj []) (JObj []) (JObj []) (JStr ''10.1234/abc'')
     = Some (JStr ''10.1234/abc'')"
proof -
  note t = md_title_priority [where doi = "JStr ''10.1234/abc''"]
  have 1: "md_title (JObj [(''title'', JList [JStr ''From CrossRef''])])
            (JObj [(''title'', JStr ''From Semantic Scholar'')])
            (JObj [(''title'', JStr ''From OpenAlex'')])
            (JObj [(''title'', JStr ''From Europe PMC'')]) (JStr ''10.1234/abc'')
     = Some (JStr ''From CrossRef'')"
    by (rule t [THEN conjunct1, rule_format]) (simp add: cr_title_def)
  have 2: "md_title (JObj []) (JObj [(''title'', JStr ''From Semantic Scholar'')])
            (JObj [(''title'', JStr ''From OpenAlex'')])
            (JObj [(''title'', JStr ''From Europe PMC'')]) (JStr ''10.1234/abc'')
     = Some (JStr ''From Semantic Scholar'')"
    by (rule t [THEN conjunct2, THEN conjunct1, rule_format, where t = JNull])
      (simp add: cr_title_def)
  have 3: "md_title (JObj []) (JObj [])
            (JObj [(''title'', JStr ''From OpenAlex'')])
            (JObj [(''title'', JStr ''From Europe PMC'')]) (JStr ''10.1234/abc'')
     = Some (JStr ''From OpenAlex'')"
    by (rule t [THEN conjunct2, THEN conjunct2, THEN conjunct1, rule_format,
          where t = JNull and s = JNull])
      (simp add: cr_title_def)
  have 4: "md_title (JObj []) (JObj []) (JObj [])
            (JObj [(''title'', JStr ''From Europe PMC'')]) (JStr ''10.1234/abc'')
     = Some (JStr ''From Europe PMC'')"
    by (rule t [THEN conjunct2, THEN conjunct2, THEN conjunct2, THEN conjunct1, rule_format,
          where t = JNull and s = JNull and a = JNull])
      (simp add: cr_title_def)
  have 5: "md_title (JObj []) (JObj []) (JObj []) (JObj []) (JStr ''10.1234/abc'')
     = Some (JStr ''10.1234/abc'')"
    by (rule t [THEN conjunct2, THEN conjunct2, THEN conjunct2, THEN conjunct2, THEN conjunct1,
          rule_format, where t = JNull and s = JNull and a = JNull and e = JNull])
      (simp add: cr_title_def)
  from 1 2 3 4 5 show ?thesis by simp
qed

end
